theory Spec2Isabelle
  imports Complex_Main "HOL-Library.Sublist"
begin

section \<open>Python values, strings and exceptions\<close>

text \<open>
  A Python \<open>str\<close> is a sequence of Unicode code points; the documents are Korean, so a
  string is modelled as a list of code points (\<open>nat\<close>), not as a list of bytes.
  \<open>asc\<close> embeds an ASCII literal.
\<close>

type_synonym ustring = "nat list"

definition asc :: "string \<Rightarrow> ustring" where
  "asc s = map of_char s"

text \<open>
  The values \<open>json.loads\<close> can produce, which are the values the agents pass around as
  \<open>Dict[str, Any]\<close>. A dict keeps its keys in insertion order, so it is an association
  list; keys of a JSON object are strings. Only the truth value of a float is ever
  observed by the code below, so floats are carried as reals.
\<close>

datatype pyval =
    PNone
  | PBool bool
  | PInt int
  | PFloat real
  | PStr ustring
  | PList "pyval list"
  | PDict "(ustring \<times> pyval) list"

text \<open>
  Exceptions (instances of \<open>Exception\<close>). \<open>Raised\<close> stands for any exception coming
  from an external call (the OpenAI client, the OCR front end, the vector store) with
  its message.
\<close>

datatype exn =
    TypeError
  | KeyError
  | AttributeError
  | JSONDecodeError
  | Raised ustring

definition andthen :: "exn + 'a \<Rightarrow> ('a \<Rightarrow> exn + 'b) \<Rightarrow> exn + 'b" where
  "andthen m f = (case m of Inl e \<Rightarrow> Inl e | Inr x \<Rightarrow> f x)"

text \<open>Python truthiness (\<open>bool(v)\<close>, as used by \<open>if v\<close>, \<open>not v\<close>, \<open>a and b\<close>).\<close>

fun truthy :: "pyval \<Rightarrow> bool" where
  "truthy PNone = False"
| "truthy (PBool b) = b"
| "truthy (PInt i) = (i \<noteq> 0)"
| "truthy (PFloat r) = (r \<noteq> 0)"
| "truthy (PStr s) = (s \<noteq> [])"
| "truthy (PList xs) = (xs \<noteq> [])"
| "truthy (PDict kvs) = (kvs \<noteq> [])"

text \<open>\<open>needle in haystack\<close> on strings: contiguous substring.\<close>

fun is_substr :: "ustring \<Rightarrow> ustring \<Rightarrow> bool" where
  "is_substr xs [] = (xs = [])"
| "is_substr xs (y # ys) = (prefix xs (y # ys) \<or> is_substr xs ys)"

text \<open>
  \<open>key in v\<close> for a string key: dict membership, list membership, substring test on a
  string, \<open>TypeError\<close> on anything that is not a container.
\<close>

definition py_in :: "ustring \<Rightarrow> pyval \<Rightarrow> exn + bool" where
  "py_in k v =
     (case v of
        PDict kvs \<Rightarrow> Inr (map_of kvs k \<noteq> None)
      | PList xs \<Rightarrow> Inr (PStr k \<in> set xs)
      | PStr s \<Rightarrow> Inr (is_substr k s)
      | _ \<Rightarrow> Inl TypeError)"

text \<open>\<open>v[key]\<close> for a string key.\<close>

definition py_getitem :: "pyval \<Rightarrow> ustring \<Rightarrow> exn + pyval" where
  "py_getitem v k =
     (case v of
        PDict kvs \<Rightarrow> (case map_of kvs k of Some x \<Rightarrow> Inr x | None \<Rightarrow> Inl KeyError)
      | _ \<Rightarrow> Inl TypeError)"

text \<open>
  \<open>d[key] = x\<close>: an existing key keeps its position, a new key goes last. Lists and
  strings refuse a string index, the other values refuse item assignment.
\<close>

fun dict_set :: "(ustring \<times> pyval) list \<Rightarrow> ustring \<Rightarrow> pyval \<Rightarrow> (ustring \<times> pyval) list" where
  "dict_set [] k x = [(k, x)]"
| "dict_set ((k', x') # kvs) k x = (if k' = k then (k, x) # kvs else (k', x') # dict_set kvs k x)"

definition py_setitem :: "pyval \<Rightarrow> ustring \<Rightarrow> pyval \<Rightarrow> exn + pyval" where
  "py_setitem v k x =
     (case v of
        PDict kvs \<Rightarrow> Inr (PDict (dict_set kvs k x))
      | _ \<Rightarrow> Inl TypeError)"

text \<open>\<open>v.get(key, default)\<close>: only a dict has the method.\<close>

definition py_get :: "pyval \<Rightarrow> ustring \<Rightarrow> pyval \<Rightarrow> exn + pyval" where
  "py_get v k dflt =
     (case v of
        PDict kvs \<Rightarrow> Inr (case map_of kvs k of Some x \<Rightarrow> x | None \<Rightarrow> dflt)
      | _ \<Rightarrow> Inl AttributeError)"

text \<open>
  \<open>s.lower()\<close>. The Unicode case mapping is the interpreter's; it is a parameter
  \<open>lower\<close> of everything that calls it. Only a string has the method.
\<close>

definition py_lower :: "(ustring \<Rightarrow> ustring) \<Rightarrow> pyval \<Rightarrow> exn + ustring" where
  "py_lower lower v = (case v of PStr s \<Rightarrow> Inr (lower s) | _ \<Rightarrow> Inl AttributeError)"

text \<open>The two default-filling idioms of the agents.\<close>

definition fill_missing :: "ustring \<Rightarrow> pyval \<Rightarrow> pyval \<Rightarrow> exn + pyval" where
  \<comment> \<open>\<open>if key not in result: result[key] = default\<close>\<close>
  "fill_missing k dflt r =
     andthen (py_in k r) (\<lambda>present. if present then Inr r else py_setitem r k dflt)"

definition fill_missing_or_empty :: "ustring \<Rightarrow> pyval \<Rightarrow> pyval \<Rightarrow> exn + pyval" where
  \<comment> \<open>\<open>if key not in result or not result[key]: result[key] = default\<close>\<close>
  "fill_missing_or_empty k dflt r =
     andthen (py_in k r) (\<lambda>present.
       if \<not> present then py_setitem r k dflt
       else andthen (py_getitem r k) (\<lambda>x.
         if truthy x then Inr r else py_setitem r k dflt))"

section \<open>String constants of the source\<close>

definition k_amount :: ustring where "k_amount = asc ''amount''"
definition k_due_date :: ustring where "k_due_date = asc ''due_date''"
definition k_organization :: ustring where "k_organization = asc ''organization''"
definition k_penalty_risk :: ustring where "k_penalty_risk = asc ''penalty_risk''"
definition k_action_required :: ustring where "k_action_required = asc ''action_required''"
definition k_contact :: ustring where "k_contact = asc ''contact''"
definition k_account_number :: ustring where "k_account_number = asc ''account_number''"
definition k_recipient_name :: ustring where "k_recipient_name = asc ''recipient_name''"
definition k_steps :: ustring where "k_steps = asc ''steps''"
definition k_action_type :: ustring where "k_action_type = asc ''action_type''"
definition k_urgency :: ustring where "k_urgency = asc ''urgency''"
definition k_summary :: ustring where "k_summary = asc ''summary''"

definition s_HIGH :: ustring where "s_HIGH = asc ''HIGH''"
definition s_MEDIUM :: ustring where "s_MEDIUM = asc ''MEDIUM''"
definition s_LOW :: ustring where "s_LOW = asc ''LOW''"
definition s_NONE :: ustring where "s_NONE = asc ''NONE''"

text \<open>Hangul literals, written as code points (with their romanisation).\<close>

definition s_gojiseo :: ustring where \<comment> \<open>go-ji-seo, "bill / notice of payment"\<close>
  "s_gojiseo = [44256, 51648, 49436]"
definition s_napbu :: ustring where \<comment> \<open>nap-bu, "payment"\<close>
  "s_napbu = [45225, 48512]"
definition s_tongjiseo :: ustring where \<comment> \<open>tong-ji-seo, "notification"\<close>
  "s_tongjiseo = [53685, 51648, 49436]"
definition s_chenap :: ustring where \<comment> \<open>che-nap, "arrears"\<close>
  "s_chenap = [52404, 45225]"
definition s_annaemun :: ustring where \<comment> \<open>an-nae-mun, "information notice"\<close>
  "s_annaemun = [50504, 45236, 47928]"

definition steps_fallback :: ustring where
  \<comment> \<open>"This document needs further confirmation."\<close>
  "steps_fallback = [51060, 32, 47928, 49436, 50640, 32, 45824, 54644, 32, 52628, 44032, 32,
     54869, 51064, 51060, 32, 54596, 50836, 54633, 45768, 45796, 46]"

section \<open>ActionPlanner (agents/action\_planner.py)\<close>

datatype action_type = NONE | PAY | CALL | VISIT | CHECK | SUBMIT | URGENT

fun action_value :: "action_type \<Rightarrow> ustring" where
  "action_value NONE = asc ''NONE''"
| "action_value PAY = asc ''PAY''"
| "action_value CALL = asc ''CALL''"
| "action_value VISIT = asc ''VISIT''"
| "action_value CHECK = asc ''CHECK''"
| "action_value SUBMIT = asc ''SUBMIT''"
| "action_value URGENT = asc ''URGENT''"

text \<open>
  \<open>_determine_action_type(doc_type, key_info)\<close>. \<open>a and b\<close> evaluates \<open>b\<close> only when
  \<open>a\<close> is truthy; \<open>doc_type.lower()\<close> is reached only when neither of the first two
  blocks returns.
\<close>

definition determine_action_type ::
  "(ustring \<Rightarrow> ustring) \<Rightarrow> pyval \<Rightarrow> pyval \<Rightarrow> exn + action_type" where
  "determine_action_type lower doc_type key_info =
     andthen (py_get key_info k_amount PNone) (\<lambda>amount.
     andthen (if truthy amount then py_get key_info k_due_date PNone else Inr amount) (\<lambda>both.
       if truthy both then
         andthen (py_get key_info k_penalty_risk PNone) (\<lambda>risk.
           if risk = PStr s_HIGH then Inr URGENT else Inr PAY)
       else
         andthen (py_get key_info k_action_required PNone) (\<lambda>required.
           if truthy required then
             andthen (py_get key_info k_penalty_risk PNone) (\<lambda>risk.
               if risk = PStr s_HIGH then Inr URGENT else Inr CHECK)
           else
             andthen (py_lower lower doc_type) (\<lambda>doc_type_lower.
             andthen (if is_substr s_gojiseo doc_type_lower \<or> is_substr s_napbu doc_type_lower
                      then andthen (py_get key_info k_amount PNone) (\<lambda>a. Inr (truthy a))
                      else Inr False) (\<lambda>pay.
               if pay then Inr PAY
               else if is_substr s_tongjiseo doc_type_lower \<or> is_substr s_chenap doc_type_lower
                 then Inr URGENT
               else if is_substr s_annaemun doc_type_lower then Inr NONE
               else Inr CHECK)))))"

text \<open>\<open>_determine_urgency(key_info)\<close>.\<close>

definition determine_urgency :: "pyval \<Rightarrow> exn + ustring" where
  "determine_urgency key_info =
     andthen (py_get key_info k_penalty_risk (PStr s_NONE)) (\<lambda>penalty_risk.
       if penalty_risk = PStr s_HIGH then Inr s_HIGH
       else if penalty_risk = PStr s_MEDIUM then Inr s_MEDIUM
       else andthen (py_get key_info k_action_required PNone) (\<lambda>required.
         if truthy required then Inr s_MEDIUM else Inr s_LOW))"

text \<open>
  \<open>_generate_action_plan\<close>. The prompts are built from \<open>rag_context.get("summary")\<close>
  and \<open>key_info.get(...)\<close>, which raise on values that are no dicts; their text only
  goes to the model. \<open>llm\<close> is the outcome of \<open>_call_llm_json\<close>: the value it returns
  or the exception it raises. It is a parameter: nothing in the code constrains what
  the generative model answers.
\<close>

definition plan_prompt_inputs :: "pyval \<Rightarrow> pyval \<Rightarrow> exn + unit" where
  "plan_prompt_inputs key_info rag_context =
     andthen (if truthy rag_context then py_get rag_context k_summary PNone else Inr rag_context) (\<lambda>_.
     andthen (py_get key_info k_amount PNone) (\<lambda>_. Inr ()))"

definition generate_action_plan ::
  "pyval \<Rightarrow> action_type \<Rightarrow> ustring \<Rightarrow> pyval \<Rightarrow> exn + pyval \<Rightarrow> exn + pyval" where
  "generate_action_plan key_info action urgency rag_context llm =
     andthen (plan_prompt_inputs key_info rag_context) (\<lambda>_.
     andthen llm (\<lambda>result.
     andthen (fill_missing_or_empty k_steps (PList [PStr steps_fallback]) result) (\<lambda>result.
     andthen (fill_missing k_action_type (PStr (action_value action)) result) (\<lambda>result.
     fill_missing k_urgency (PStr urgency) result))))"

text \<open>\<open>ActionPlanner.process\<close>.\<close>

definition planner_process ::
  "(ustring \<Rightarrow> ustring) \<Rightarrow> pyval \<Rightarrow> pyval \<Rightarrow> pyval \<Rightarrow> exn + pyval \<Rightarrow> exn + pyval" where
  "planner_process lower doc_type key_info rag_context llm =
     andthen (determine_action_type lower doc_type key_info) (\<lambda>action.
     andthen (determine_urgency key_info) (\<lambda>urgency.
     generate_action_plan key_info action urgency rag_context llm))"

text \<open>
  The decision table as the specification words it: seven rules in priority order, the
  first rule whose condition holds decides, otherwise \<open>CHECK\<close>. A field is present when
  the facts hold a truthy value for it (the extractor's default for a missing amount
  or date is \<open>None\<close>).
\<close>

definition first_matching_rule :: "(bool \<times> action_type) list \<Rightarrow> action_type \<Rightarrow> action_type" where
  "first_matching_rule rules dflt = (case find fst rules of Some r \<Rightarrow> snd r | None \<Rightarrow> dflt)"

definition action_type_table ::
  "bool \<Rightarrow> bool \<Rightarrow> bool \<Rightarrow> bool \<Rightarrow> bool \<Rightarrow> bool \<Rightarrow> bool \<Rightarrow> action_type" where
  "action_type_table amount due_date risk_high action_required notice_payment collection
       informational =
     first_matching_rule
       [ (amount \<and> due_date \<and> risk_high, URGENT),
         (amount \<and> due_date, PAY),
         (action_required \<and> risk_high, URGENT),
         (action_required, CHECK),
         (notice_payment \<and> amount, PAY),
         (collection, URGENT),
         (informational, NONE) ]
       CHECK"

definition field_present :: "(ustring \<times> pyval) list \<Rightarrow> ustring \<Rightarrow> bool" where
  "field_present facts k = (case map_of facts k of Some v \<Rightarrow> truthy v | None \<Rightarrow> False)"

definition risk_is_high :: "(ustring \<times> pyval) list \<Rightarrow> bool" where
  "risk_is_high facts = (map_of facts k_penalty_risk = Some (PStr s_HIGH))"

section \<open>Regular expressions (the \<open>re\<close> patterns of the extractor and of the JSON helper)\<close>

text \<open>
  Every pattern compiled in the source is a sequence of greedy repetitions, each of a
  run of character classes of fixed length: \<open>\d{1,3}\<close>, \<open>(?:,\d{3})*\<close>, \<open>\s*\<close>,
  \<open>[:\s]*\<close>, \<open>[\d\-]+\<close>, a literal character (a repetition \<open>{1,1}\<close>), and so on.
  There is no alternation, no anchor and no look-around, so whether the pattern matches
  at a position depends only on the text from that position on.

  \<open>\d\<close> is "Unicode decimal digit" and is a table of the interpreter: it is the
  parameter \<open>dg\<close> of the matcher. \<open>\s\<close> is the whitespace set that \<open>str.strip\<close> and
  \<open>str.isspace\<close> use.
\<close>

definition is_space :: "nat \<Rightarrow> bool" where
  "is_space c =
     ((9 \<le> c \<and> c \<le> 13) \<or> (28 \<le> c \<and> c \<le> 32) \<or> c = 133 \<or> c = 160 \<or> c = 5760
      \<or> (8192 \<le> c \<and> c \<le> 8202) \<or> c = 8232 \<or> c = 8233 \<or> c = 8239 \<or> c = 8287
      \<or> c = 12288)"

definition ascii_digit :: "nat \<Rightarrow> bool" where
  \<comment> \<open>the decimal digits among the ASCII characters\<close>
  "ascii_digit c = (48 \<le> c \<and> c \<le> 57)"

datatype atom = Lit nat | Digit | Space

datatype cset = Is atom | AnyOf "atom list" | NoneOf "atom list" | AnyChar

datatype item = Rep "cset list" nat "nat option"

fun amatch :: "(nat \<Rightarrow> bool) \<Rightarrow> atom \<Rightarrow> nat \<Rightarrow> bool" where
  "amatch dg (Lit x) c = (c = x)"
| "amatch dg Digit c = dg c"
| "amatch dg Space c = is_space c"

fun cmatch :: "(nat \<Rightarrow> bool) \<Rightarrow> cset \<Rightarrow> nat \<Rightarrow> bool" where
  "cmatch dg (Is a) c = amatch dg a c"
| "cmatch dg (AnyOf as) c = list_ex (\<lambda>a. amatch dg a c) as"
| "cmatch dg (NoneOf as) c = (\<not> list_ex (\<lambda>a. amatch dg a c) as)"
| "cmatch dg AnyChar c = True"

text \<open>The run of classes \<open>body\<close> matches at the start of the text.\<close>

fun body_at :: "(nat \<Rightarrow> bool) \<Rightarrow> cset list \<Rightarrow> ustring \<Rightarrow> bool" where
  "body_at dg [] s = True"
| "body_at dg (c # cs) [] = False"
| "body_at dg (c # cs) (x # xs) = (cmatch dg c x \<and> body_at dg cs xs)"

text \<open>
  How many copies of \<open>body\<close> a greedy repetition takes before it looks at the rest of
  the pattern: as many as match in a row, at most \<open>cap\<close>.
\<close>

fun greedy_count :: "(nat \<Rightarrow> bool) \<Rightarrow> cset list \<Rightarrow> nat \<Rightarrow> ustring \<Rightarrow> nat" where
  "greedy_count dg body 0 s = 0"
| "greedy_count dg body (Suc cap) s =
     (if body \<noteq> [] \<and> body_at dg body s
      then Suc (greedy_count dg body cap (drop (length body) s))
      else 0)"

text \<open>
  Backtracking: with \<open>n\<close> copies taken, try the rest of the pattern (\<open>k\<close>); when it
  fails give one copy back, down to the lower bound \<open>lo\<close>. The result is the list of
  the lengths consumed by each item.
\<close>

fun backtrack ::
  "(ustring \<Rightarrow> nat list option) \<Rightarrow> nat \<Rightarrow> nat \<Rightarrow> nat \<Rightarrow> ustring \<Rightarrow> nat list option" where
  "backtrack k len lo 0 s =
     (if 0 < lo then None
      else (case k s of Some ls \<Rightarrow> Some (0 # ls) | None \<Rightarrow> None))"
| "backtrack k len lo (Suc n) s =
     (if Suc n < lo then None
      else (case k (drop (Suc n * len) s) of
              Some ls \<Rightarrow> Some (Suc n * len # ls)
            | None \<Rightarrow> backtrack k len lo n s))"

definition rep_cap :: "nat option \<Rightarrow> ustring \<Rightarrow> nat" where
  \<comment> \<open>an unbounded repetition of a non-empty body cannot take more copies than there are characters\<close>
  "rep_cap hi s = (case hi of Some h \<Rightarrow> h | None \<Rightarrow> length s)"

primrec match_seq :: "(nat \<Rightarrow> bool) \<Rightarrow> item list \<Rightarrow> ustring \<Rightarrow> nat list option" where
  "match_seq dg [] = (\<lambda>s. Some [])"
| "match_seq dg (it # rest) =
     (\<lambda>s. case it of Rep body lo hi \<Rightarrow>
        backtrack (match_seq dg rest) (length body) lo
          (greedy_count dg body (rep_cap hi s) s) s)"

text \<open>The text of a match, cut into the parts consumed by the items.\<close>

fun split_parts :: "nat list \<Rightarrow> ustring \<Rightarrow> ustring list" where
  "split_parts [] s = []"
| "split_parts (n # ns) s = take n s # split_parts ns (drop n s)"

text \<open>
  \<open>pattern.finditer(text)\<close>: the non-overlapping matches, scanning from the left.
  After a match of \<open>n\<close> characters the scan goes on behind it; without a match at this
  position it goes on one character further. (None of the patterns can match the empty
  string; the scan steps over an empty match by one character.)
\<close>

fun finditer :: "(nat \<Rightarrow> bool) \<Rightarrow> item list \<Rightarrow> ustring \<Rightarrow> ustring list list" where
  "finditer dg p [] =
     (case match_seq dg p [] of None \<Rightarrow> [] | Some ls \<Rightarrow> [split_parts ls []])"
| "finditer dg p (c # cs) =
     (case match_seq dg p (c # cs) of
        None \<Rightarrow> finditer dg p cs
      | Some ls \<Rightarrow> split_parts ls (c # cs) # finditer dg p (drop (sum_list ls - 1) cs))"

text \<open>\<open>re.search(pattern, text)\<close>: the first match of the scan, \<open>match.group()\<close> of it.\<close>

fun re_search :: "(nat \<Rightarrow> bool) \<Rightarrow> item list \<Rightarrow> ustring \<Rightarrow> ustring option" where
  "re_search dg p [] =
     (case match_seq dg p [] of None \<Rightarrow> None | Some ls \<Rightarrow> Some [])"
| "re_search dg p (c # cs) =
     (case match_seq dg p (c # cs) of
        None \<Rightarrow> re_search dg p cs
      | Some ls \<Rightarrow> Some (take (sum_list ls) (c # cs)))"

text \<open>
  What it means for a text to match a pattern in full, said without backtracking:
  \<open>n\<close> copies of the body in a row, and the text cut into one run of copies per item,
  the number of copies within the bounds of the item. (The copies of a non-empty body
  are at most as many as the characters.)
\<close>

fun body_run :: "(nat \<Rightarrow> bool) \<Rightarrow> cset list \<Rightarrow> nat \<Rightarrow> ustring \<Rightarrow> bool" where
  "body_run dg body 0 s = True"
| "body_run dg body (Suc n) s = (body_at dg body s \<and> body_run dg body n (drop (length body) s))"

fun full_match :: "(nat \<Rightarrow> bool) \<Rightarrow> item list \<Rightarrow> ustring \<Rightarrow> bool" where
  "full_match dg [] s = (s = [])"
| "full_match dg (Rep body lo hi # rest) s =
     list_ex (\<lambda>n. lo \<le> n \<and> (case hi of Some h \<Rightarrow> n \<le> h | None \<Rightarrow> True) \<and>
                  body_run dg body n s \<and> full_match dg rest (drop (n * length body) s))
       [0..<Suc (length s)]"

fun nonempty_bodies :: "item list \<Rightarrow> bool" where
  "nonempty_bodies [] = True"
| "nonempty_bodies (Rep body lo hi # rest) = (body \<noteq> [] \<and> nonempty_bodies rest)"

text \<open>Shorthands for writing the patterns down.\<close>

definition single :: "cset \<Rightarrow> item" where "single c = Rep [c] 1 (Some 1)"
definition many :: "cset \<Rightarrow> item" where "many c = Rep [c] 0 None"
definition many1 :: "cset \<Rightarrow> item" where "many1 c = Rep [c] 1 None"
definition opt :: "cset \<Rightarrow> item" where "opt c = Rep [c] 0 (Some 1)"
definition between :: "cset \<Rightarrow> nat \<Rightarrow> nat \<Rightarrow> item" where "between c lo hi = Rep [c] lo (Some hi)"
definition lits :: "ustring \<Rightarrow> item list" where "lits s = map (\<lambda>c. single (Is (Lit c))) s"

section \<open>InfoExtractor (agents/info\_extractor.py)\<close>

definition c_won :: nat where \<comment> \<open>U+C6D0 won, the currency suffix\<close>
  "c_won = 50896"

definition digits_1_3 :: item where "digits_1_3 = between (Is Digit) 1 3"

definition comma_groups :: item where
  \<comment> \<open>\<open>(?:,\d{3})*\<close>\<close>
  "comma_groups = Rep [Is (Lit 44), Is Digit, Is Digit, Is Digit] 0 None"

definition number_won :: "item list" where
  \<comment> \<open>\<open>(\d{1,3}(?:,\d{3})*)\s*won\<close>\<close>
  "number_won = [digits_1_3, comma_groups, many (Is Space), single (Is (Lit c_won))]"

definition colon_or_space :: cset where \<comment> \<open>\<open>[:\s]\<close>\<close>
  "colon_or_space = AnyOf [Lit 58, Space]"

definition date_sep :: cset where \<comment> \<open>\<open>[-./]\<close>\<close>
  "date_sep = AnyOf [Lit 45, Lit 46, Lit 47]"

definition digit_or_hyphen :: cset where \<comment> \<open>\<open>[\d\-]\<close>\<close>
  "digit_or_hyphen = AnyOf [Digit, Lit 45]"

text \<open>
  \<open>amount_patterns\<close>, in the order of the source:
  \<^enum> \<open>(\d{1,3}(?:,\d{3})*)\s*W\<close> with \<open>W\<close> the syllable won;
  \<^enum> \<open>S\s*(\d{1,3}(?:,\d{3})*)\<close> with \<open>S\<close> the won sign U+20A9;
  \<^enum> geum (U+AE08), \<open>\s*\<close>, then the first pattern;
  \<^enum> hap-gye ("total"), \<open>[:\s]*\<close>, then the first pattern;
  \<^enum> chong-aek ("total amount"), \<open>[:\s]*\<close>, then the first pattern;
  \<^enum> nap-bu-geum-aek ("amount to pay"), \<open>[:\s]*\<close>, then the first pattern.
\<close>

definition c_won_sign :: nat where \<comment> \<open>U+20A9, the won sign\<close>
  "c_won_sign = 8361"

definition won_sign_number :: "item list" where
  \<comment> \<open>the second pattern\<close>
  "won_sign_number = [single (Is (Lit c_won_sign)), many (Is Space), digits_1_3, comma_groups]"

definition amount_patterns :: "item list list" where
  "amount_patterns =
    [ number_won,
      won_sign_number,
      [single (Is (Lit 44552)), many (Is Space)] @ number_won,
      lits [54633, 44228] @ [many colon_or_space] @ number_won,
      lits [52509, 50529] @ [many colon_or_space] @ number_won,
      lits [45225, 48512, 44552, 50529] @ [many colon_or_space] @ number_won ]"

definition ymd_sep :: "item list" where
  \<comment> \<open>\<open>\d{4}[-./]\d{1,2}[-./]\d{1,2}\<close>\<close>
  "ymd_sep = [between (Is Digit) 4 4, single date_sep, between (Is Digit) 1 2, single date_sep,
              between (Is Digit) 1 2]"

text \<open>
  \<open>date_patterns\<close>:
  \<^enum> \<open>(\d{4})[-./Y]\s*(\d{1,2})[-./M]\s*(\d{1,2})D?\<close> with \<open>Y\<close>, \<open>M\<close>, \<open>D\<close> the syllables
    nyeon (year, U+B144), wol (month, U+C6D4), il (day, U+C77C);
  \<^enum> \<open>(\d{4})\.(\d{2})\.(\d{2})\<close>;
  \<^enum> nap-bu-gi-han ("payment deadline"), \<open>[:\s]*\<close>, \<open>(\d{4}[-./]\d{1,2}[-./]\d{1,2})\<close>;
  \<^enum> ma-gam-il ("closing day"), then the same;
  \<^enum> gi-han ("deadline"), then the same.
\<close>

definition date_patterns :: "item list list" where
  "date_patterns =
    [ [between (Is Digit) 4 4, single (AnyOf [Lit 45, Lit 46, Lit 47, Lit 45380]), many (Is Space),
       between (Is Digit) 1 2, single (AnyOf [Lit 45, Lit 46, Lit 47, Lit 50900]), many (Is Space),
       between (Is Digit) 1 2, opt (Is (Lit 51068))],
      [between (Is Digit) 4 4, single (Is (Lit 46)), between (Is Digit) 2 2, single (Is (Lit 46)),
       between (Is Digit) 2 2],
      lits [45225, 48512, 44592, 54620] @ [many colon_or_space] @ ymd_sep,
      lits [47560, 44048, 51068] @ [many colon_or_space] @ ymd_sep,
      lits [44592, 54620] @ [many colon_or_space] @ ymd_sep ]"

text \<open>
  \<open>phone_patterns\<close>:
  \<^enum> \<open>(\d{2,4})[-)\s](\d{3,4})[-\s](\d{4})\<close>;
  \<^enum> \<open>(1\d{3})\<close>;
  \<^enum> jeon-hwa ("telephone"), \<open>[:\s]*([\d\-]+)\<close>;
  \<^enum> yeol-lak-cheo ("contact"), \<open>[:\s]*([\d\-]+)\<close>;
  \<^enum> mun-ui ("enquiries"), \<open>[:\s]*([\d\-]+)\<close>.
\<close>

definition phone_patterns :: "item list list" where
  "phone_patterns =
    [ [between (Is Digit) 2 4, single (AnyOf [Lit 45, Lit 41, Space]), between (Is Digit) 3 4,
       single (AnyOf [Lit 45, Space]), between (Is Digit) 4 4],
      [single (Is (Lit 49)), between (Is Digit) 3 3],
      lits [51204, 54868] @ [many colon_or_space, many1 digit_or_hyphen],
      lits [50672, 46973, 52376] @ [many colon_or_space, many1 digit_or_hyphen],
      lits [47928, 51032] @ [many colon_or_space, many1 digit_or_hyphen] ]"

text \<open>
  \<open>account_patterns\<close>. Each has one capturing group, at its end; a pattern is written
  as the pair (items before the group, items of the group):
  \<^enum> gye-jwa ("account"), \<open>[^\d]*(\d{2,4}[-\s]?\d{2,6}[-\s]?\d{2,6})\<close>;
  \<^enum> nap-bu-beon-ho ("payment number"), \<open>[:\s]*([\d\-]+)\<close>;
  \<^enum> ga-sang-gye-jwa ("virtual account"), \<open>[:\s]*([\d\-]+)\<close>.
\<close>

definition account_patterns :: "(item list \<times> item list) list" where
  "account_patterns =
    [ (lits [44228, 51340] @ [many (NoneOf [Digit])],
       [between (Is Digit) 2 4, opt (AnyOf [Lit 45, Space]), between (Is Digit) 2 6,
        opt (AnyOf [Lit 45, Space]), between (Is Digit) 2 6]),
      (lits [45225, 48512, 48264, 54840] @ [many colon_or_space], [many1 digit_or_hyphen]),
      (lits [44032, 49345, 44228, 51340] @ [many colon_or_space], [many1 digit_or_hyphen]) ]"

text \<open>\<open>if x not in xs: xs.append(x)\<close>\<close>

definition add_unique :: "ustring list \<Rightarrow> ustring \<Rightarrow> ustring list" where
  "add_unique acc x = (if x \<in> set acc then acc else acc @ [x])"

text \<open>\<open>match.group(0)\<close> of every match of every pattern, in the order of the two loops.\<close>

definition all_group0 :: "(nat \<Rightarrow> bool) \<Rightarrow> item list list \<Rightarrow> ustring \<Rightarrow> ustring list" where
  "all_group0 dg pats text = concat (map (\<lambda>p. map concat (finditer dg p text)) pats)"

text \<open>
  \<open>match.group(1) if match.lastindex else match.group(0)\<close>: the group of an account
  pattern takes part in every match, so \<open>lastindex\<close> is 1.
\<close>

definition all_group1 ::
  "(nat \<Rightarrow> bool) \<Rightarrow> (item list \<times> item list) list \<Rightarrow> ustring \<Rightarrow> ustring list" where
  "all_group1 dg pats text =
     concat (map (\<lambda>(pre, grp).
       map (\<lambda>parts. concat (drop (length pre) parts)) (finditer dg (pre @ grp) text)) pats)"

record rule_candidates =
  amounts :: "ustring list"
  dates :: "ustring list"
  phones :: "ustring list"
  accounts :: "ustring list"

definition extract_with_rules :: "(nat \<Rightarrow> bool) \<Rightarrow> ustring \<Rightarrow> rule_candidates" where
  "extract_with_rules dg text =
     \<lparr> amounts = foldl add_unique [] (all_group0 dg amount_patterns text),
       dates = foldl add_unique [] (all_group0 dg date_patterns text),
       phones = foldl add_unique [] (all_group0 dg phone_patterns text),
       accounts = foldl add_unique [] (all_group1 dg account_patterns text) \<rparr>"

text \<open>
  \<open>_extract_with_llm\<close>. The candidates and the text go into the prompt only. \<open>llm\<close> is
  the outcome of \<open>_call_llm_json\<close>. Afterwards every key of \<open>defaults\<close> that is not in
  the result is set to its default, in the order of the dict literal.
\<close>

definition extractor_defaults :: "(ustring \<times> pyval) list" where
  "extractor_defaults =
    [ (k_amount, PNone), (k_due_date, PNone), (k_organization, PNone),
      (k_penalty_risk, PStr s_NONE), (k_action_required, PBool False),
      (k_contact, PNone), (k_account_number, PNone), (k_recipient_name, PNone) ]"

definition fill_defaults :: "(ustring \<times> pyval) list \<Rightarrow> pyval \<Rightarrow> exn + pyval" where
  \<comment> \<open>\<open>for key, default in defaults.items(): if key not in result: result[key] = default\<close>\<close>
  "fill_defaults defaults result =
     foldl (\<lambda>r (k, dflt). andthen r (fill_missing k dflt)) (Inr result) defaults"

definition extract_with_llm ::
  "ustring \<Rightarrow> pyval \<Rightarrow> rule_candidates \<Rightarrow> exn + pyval \<Rightarrow> exn + pyval" where
  "extract_with_llm ocr_text doc_type rule_cands llm =
     andthen llm (fill_defaults extractor_defaults)"

text \<open>\<open>InfoExtractor.process\<close>.\<close>

definition extractor_process ::
  "(nat \<Rightarrow> bool) \<Rightarrow> ustring \<Rightarrow> pyval \<Rightarrow> exn + pyval \<Rightarrow> exn + pyval" where
  "extractor_process dg ocr_text doc_type llm =
     extract_with_llm ocr_text doc_type (extract_with_rules dg ocr_text) llm"

section \<open>DocumentClassifier (agents/document\_classifier.py)\<close>

definition k_doc_type :: ustring where "k_doc_type = asc ''doc_type''"
definition k_doc_type_name :: ustring where "k_doc_type_name = asc ''doc_type_name''"
definition k_confidence :: ustring where "k_confidence = asc ''confidence''"

definition other_type :: ustring where \<comment> \<open>the catalogue's "other public document" code\<close>
  "other_type = [44592, 53440, 95, 44277, 44277, 47928, 49436]"
definition other_name :: ustring where \<comment> \<open>its display name\<close>
  "other_name = [44592, 53440, 32, 44277, 44277, 47928, 49436]"
definition unknown_org :: ustring where \<comment> \<open>"unknown"\<close>
  "unknown_org = [50508, 32, 49688, 32, 50630, 51020]"

text \<open>
  \<open>DocumentClassifier.process\<close>: the keyword pre-filter only feeds the prompt; the
  result of \<open>_call_llm_json\<close> gets its four required keys.
\<close>

definition classifier_process :: "exn + pyval \<Rightarrow> exn + pyval" where
  "classifier_process llm =
     andthen llm (\<lambda>result.
     andthen (fill_missing k_doc_type (PStr other_type) result) (\<lambda>result.
     andthen (fill_missing k_doc_type_name (PStr other_name) result) (\<lambda>result.
     andthen (fill_missing k_confidence (PFloat (1/2)) result) (\<lambda>result.
     fill_missing k_organization (PStr unknown_org) result))))"

section \<open>RAGAgent (agents/rag\_agent.py)\<close>

text \<open>
  What \<open>RAGAgent.process\<close> returns is built from the vector store's hits and a
  generated summary; the stage is not looked into here, its outcome (the exception it
  raises, from \<open>_build_query\<close>, or the dict it returns) is a parameter of a run. The
  dict has the keys \<open>retrieved_chunks\<close>, \<open>query\<close>, \<open>summary\<close> and, after a failed search,
  \<open>error\<close>; a chunk has exactly the keys \<open>text\<close>, \<open>source\<close>, \<open>doc_type\<close>, \<open>topic\<close>,
  \<open>score\<close>.
\<close>

record chunk =
  chunk_text :: pyval
  chunk_source :: pyval
  chunk_doc_type :: pyval
  chunk_topic :: pyval
  chunk_score :: pyval

record rag_result =
  retrieved_chunks :: "chunk list"
  query :: ustring
  summary :: pyval
  rag_error :: "ustring option"

definition k_retrieved_chunks :: ustring where "k_retrieved_chunks = asc ''retrieved_chunks''"

definition chunk_dict :: "chunk \<Rightarrow> pyval" where
  "chunk_dict c =
     PDict [ (asc ''text'', chunk_text c), (asc ''source'', chunk_source c),
             (asc ''doc_type'', chunk_doc_type c), (asc ''topic'', chunk_topic c),
             (asc ''score'', chunk_score c) ]"

definition rag_dict :: "rag_result \<Rightarrow> pyval" where
  "rag_dict r =
     PDict ([ (k_retrieved_chunks, PList (map chunk_dict (retrieved_chunks r))),
              (asc ''query'', PStr (query r)),
              (k_summary, summary r) ]
            @ (case rag_error r of None \<Rightarrow> [] | Some e \<Rightarrow> [(asc ''error'', PStr e)]))"

section \<open>Simplifier (agents/simplifier.py)\<close>

definition k_summary_one_line :: ustring where "k_summary_one_line = asc ''summary_one_line''"
definition k_risk_level :: ustring where "k_risk_level = asc ''risk_level''"
definition k_risk_message :: ustring where "k_risk_message = asc ''risk_message''"
definition k_what_is_this :: ustring where "k_what_is_this = asc ''what_is_this''"
definition k_key_points :: ustring where "k_key_points = asc ''key_points''"
definition k_steps_easy :: ustring where "k_steps_easy = asc ''steps_easy''"
definition k_help_channels :: ustring where "k_help_channels = asc ''help_channels''"
definition k_dont_worry :: ustring where "k_dont_worry = asc ''dont_worry''"
definition k_need_help_message :: ustring where "k_need_help_message = asc ''need_help_message''"

definition summary_default :: ustring where \<comment> \<open>"This document needs checking."\<close>
  "summary_default = [54869, 51064, 51060, 32, 54596, 50836, 54620, 32, 47928, 49436, 51077,
     45768, 45796, 46]"
definition what_default :: ustring where \<comment> \<open>"A document sent by a public body."\<close>
  "what_default = [44277, 44277, 44592, 44288, 50640, 49436, 32, 48372, 45240, 32, 47928,
     49436, 51077, 45768, 45796, 46]"
definition steps_easy_default :: ustring where \<comment> \<open>"Please read it carefully."\<close>
  "steps_easy_default = [51088, 49464, 55176, 32, 51069, 50612, 48372, 49464, 50836, 46]"
definition need_help_default :: ustring where \<comment> \<open>"Ask at the nearest community centre."\<close>
  "need_help_default = [44032, 44620, 50868, 32, 51452, 48124, 49468, 53552, 50640, 32, 47928,
     51032, 54616, 49464, 50836, 46]"

definition simplifier_defaults :: "(ustring \<times> pyval) list" where
  "simplifier_defaults =
    [ (k_summary_one_line, PStr summary_default),
      (k_risk_level, PStr s_LOW),
      (k_risk_message, PStr []),
      (k_what_is_this, PStr what_default),
      (k_key_points, PList []),
      (k_steps_easy, PList [PStr steps_easy_default]),
      (k_help_channels, PDict []),
      (k_dont_worry, PStr []),
      (k_need_help_message, PStr need_help_default) ]"

text \<open>
  What \<open>if key not in result or not result[key]: result[key] = default\<close> leaves under
  the key: the generated value when it is there and truthy, the default otherwise.
\<close>

definition generated_or_default :: "(ustring \<times> pyval) list \<Rightarrow> ustring \<Rightarrow> pyval \<Rightarrow> pyval" where
  "generated_or_default d k dflt =
     (case map_of d k of Some v \<Rightarrow> if truthy v then v else dflt | None \<Rightarrow> dflt)"

definition fill_defaults_or_empty :: "(ustring \<times> pyval) list \<Rightarrow> pyval \<Rightarrow> exn + pyval" where
  \<comment> \<open>\<open>for key, default in defaults.items(): if key not in result or not result[key]: result[key] = default\<close>\<close>
  "fill_defaults_or_empty defaults result =
     foldl (\<lambda>r (k, dflt). andthen r (fill_missing_or_empty k dflt)) (Inr result) defaults"

text \<open>
  \<open>_generate_simple_explanation\<close>. The loop over \<open>rag_context["retrieved_chunks"]\<close>
  looks for \<open>chunk.get("metadata", {}).get("action_guide")\<close>; a chunk built by the RAG
  agent has no key \<open>metadata\<close>, so the loop adds nothing and cannot raise. The prompt
  then reads \<open>action_plan.get(...)\<close> and \<open>key_info.get(...)\<close>.
\<close>

definition simplify_prompt_inputs :: "pyval \<Rightarrow> pyval \<Rightarrow> exn + unit" where
  "simplify_prompt_inputs key_info action_plan =
     andthen (py_get action_plan k_steps (PList [])) (\<lambda>_.
     andthen (py_get key_info k_amount PNone) (\<lambda>_. Inr ()))"

definition generate_simple_explanation ::
  "pyval \<Rightarrow> pyval \<Rightarrow> pyval \<Rightarrow> rag_result \<Rightarrow> exn + pyval \<Rightarrow> exn + pyval" where
  "generate_simple_explanation doc_type key_info action_plan rag_context llm =
     andthen (simplify_prompt_inputs key_info action_plan) (\<lambda>_.
     andthen llm (fill_defaults_or_empty simplifier_defaults))"

text \<open>\<open>Simplifier.process\<close>.\<close>

definition simplifier_process ::
  "pyval \<Rightarrow> pyval \<Rightarrow> pyval \<Rightarrow> rag_result \<Rightarrow> exn + pyval \<Rightarrow> exn + pyval" where
  "simplifier_process doc_type key_info action_plan rag_context llm =
     generate_simple_explanation doc_type key_info action_plan rag_context llm"

section \<open>The JSON helper (agents/base\_agent.py)\<close>

text \<open>
  \<open>_call_llm_json\<close>. \<open>json.loads\<close> is the library's parser: it is the parameter
  \<open>json_loads\<close>, which returns the parsed value or raises. \<open>llm_call\<close> is the outcome of
  \<open>_call_llm\<close>, the response text or the client's exception. The handler catches
  \<open>json.JSONDecodeError\<close> only; inside it, \<open>re.search(r'\{.*\}', response, re.DOTALL)\<close>
  looks for the first opening brace and the last closing brace behind it, and the
  second \<open>json.loads\<close> is not guarded.
\<close>

definition brace_pattern :: "item list" where
  "brace_pattern = [single (Is (Lit 123)), many AnyChar, single (Is (Lit 125))]"

definition parse_failure :: "ustring \<Rightarrow> pyval" where
  "parse_failure response =
     PDict [ (asc ''error'', PStr (asc ''Failed to parse JSON'')),
             (asc ''raw_response'', PStr response) ]"

definition call_llm_json :: "(ustring \<Rightarrow> exn + pyval) \<Rightarrow> exn + ustring \<Rightarrow> exn + pyval" where
  "call_llm_json json_loads llm_call =
     andthen llm_call (\<lambda>response.
       case json_loads response of
         Inr v \<Rightarrow> Inr v
       | Inl e \<Rightarrow>
           if e = JSONDecodeError then
             (case re_search ascii_digit brace_pattern response of
                Some json_match \<Rightarrow> json_loads json_match
              | None \<Rightarrow> Inr (parse_failure response))
           else Inl e)"

section \<open>History (api/main.py)\<close>

text \<open>
  The module keeps \<open>analysis_history\<close>, a list in memory, and \<open>HISTORY_FILE\<close>.
  \<open>history_file\<close> is the list that the file holds; it is \<open>None\<close> when there is no file
  or when its content is no JSON. \<open>xs[-50:]\<close> is the last 50 elements of \<open>xs\<close>.

  Writing is wrapped in \<open>try/except: pass\<close>, and there are three ways it can go:
  the list is written; \<open>open(HISTORY_FILE, 'w')\<close> raises and the file stays as it was;
  or \<open>open\<close> has truncated the file and \<open>json.dump\<close> raises, which leaves an empty or
  half-written file that holds no JSON.
\<close>

datatype write_outcome = Written | Open_failed | Dump_failed

record history_state =
  analysis_history :: "pyval list"
  history_file :: "pyval list option"

definition last_50 :: "'a list \<Rightarrow> 'a list" where
  "last_50 xs = drop (length xs - 50) xs"

definition save_history :: "write_outcome \<Rightarrow> history_state \<Rightarrow> history_state" where
  "save_history outcome st =
     (case outcome of
        Written \<Rightarrow> st\<lparr> history_file := Some (last_50 (analysis_history st)) \<rparr>
      | Open_failed \<Rightarrow> st
      | Dump_failed \<Rightarrow> st\<lparr> history_file := None \<rparr>)"

definition text_input :: ustring where \<comment> \<open>"text input"\<close>
  "text_input = [53581, 49828, 53944, 32, 51077, 47141]"

text \<open>
  \<open>add_to_history(result, filename)\<close>; \<open>fresh_id\<close> is \<open>str(uuid.uuid4())\<close> and \<open>now\<close> is
  \<open>datetime.now().isoformat()\<close>. The endpoints pass a dict as \<open>result\<close>.
\<close>

definition history_entry ::
  "ustring \<Rightarrow> ustring \<Rightarrow> (ustring \<times> pyval) list \<Rightarrow> ustring option \<Rightarrow> pyval" where
  "history_entry fresh_id now result filename =
     PDict [ (asc ''id'', case map_of result (asc ''analysis_id'') of Some v \<Rightarrow> v | None \<Rightarrow> PStr fresh_id),
             (asc ''timestamp'', PStr now),
             (asc ''filename'', PStr (case filename of Some f \<Rightarrow> (if f \<noteq> [] then f else text_input)
                                                    | None \<Rightarrow> text_input)),
             (k_doc_type_name, case map_of result k_doc_type_name of Some v \<Rightarrow> v | None \<Rightarrow> PStr unknown_org),
             (k_summary_one_line, case map_of result k_summary_one_line of Some v \<Rightarrow> v | None \<Rightarrow> PStr []),
             (k_risk_level, case map_of result k_risk_level of Some v \<Rightarrow> v | None \<Rightarrow> PStr s_LOW),
             (asc ''result'', PDict result) ]"

definition add_to_history ::
  "ustring \<Rightarrow> ustring \<Rightarrow> write_outcome \<Rightarrow> (ustring \<times> pyval) list \<Rightarrow> ustring option \<Rightarrow>
   history_state \<Rightarrow> history_state" where
  "add_to_history fresh_id now outcome result filename st =
     save_history outcome
       (st\<lparr> analysis_history := history_entry fresh_id now result filename # analysis_history st \<rparr>)"

text \<open>\<open>GET /history?limit=n\<close> lists \<open>analysis_history[:limit]\<close> as the recent analyses.\<close>

definition get_history :: "nat \<Rightarrow> history_state \<Rightarrow> pyval list" where
  "get_history limit st = take limit (analysis_history st)"

section \<open>DocumentAnalysisPipeline (core/pipeline.py)\<close>

record analysis_result =
  doc_type :: pyval
  doc_type_name :: pyval
  organization :: pyval
  risk_level :: pyval
  action_required :: pyval
  key_info :: pyval
  summary_one_line :: pyval
  what_is_this :: pyval
  key_points :: pyval
  steps_easy :: pyval
  dont_worry :: pyval
  need_help_message :: pyval
  action_plan :: pyval
  evidence_chunks :: pyval
  ocr_confidence :: real
  processing_time_ms :: int

text \<open>\<open>AnalysisResult()\<close>, the dataclass with its defaults.\<close>

definition new_result :: analysis_result where
  "new_result =
     \<lparr> doc_type = PStr [], doc_type_name = PStr [], organization = PStr [],
       risk_level = PStr s_LOW, action_required = PBool False, key_info = PDict [],
       summary_one_line = PStr [], what_is_this = PStr [], key_points = PList [],
       steps_easy = PList [], dont_worry = PStr [], need_help_message = PStr [],
       action_plan = PDict [], evidence_chunks = PList [],
       ocr_confidence = 0, processing_time_ms = 0 \<rparr>"

text \<open>
  Everything a run takes from outside: the interpreter's Unicode tables and \<open>str(e)\<close>,
  the two readings of \<open>time.time()\<close>, what preprocessing and OCR deliver (an exception,
  or per page the text, \<open>None\<close> when the model sent no content, and the confidence),
  and the outcome of each generative call and of the retrieval stage.
\<close>

record run_env =
  uni_lower :: "ustring \<Rightarrow> ustring"
  uni_digit :: "nat \<Rightarrow> bool"
  exn_str :: "exn \<Rightarrow> ustring"
  clock_start :: real
  clock_end :: real
  acquired :: "exn + (ustring option \<times> real) list"
  llm_classify :: "exn + pyval"
  llm_extract :: "exn + pyval"
  rag_outcome :: "exn + rag_result"
  llm_plan :: "exn + pyval"
  llm_simplify :: "exn + pyval"

definition unreadable_msg :: ustring where \<comment> \<open>"The document cannot be read."\<close>
  "unreadable_msg = [47928, 49436, 47484, 32, 51069, 51012, 32, 49688, 32, 50630, 49845, 45768,
     45796, 46]"
definition unreadable_what :: ustring where
  \<comment> \<open>"The image quality is poor, the characters could not be recognised."\<close>
  "unreadable_what = [51060, 48120, 51648, 32, 54408, 51656, 51060, 32, 51339, 51648, 32, 50506,
     50500, 32, 44544, 51088, 47484, 32, 51064, 49885, 54616, 51648, 32, 47803, 54664, 49845,
     45768, 45796, 46]"
definition retake_msg :: ustring where \<comment> \<open>"Please take a sharper photo again."\<close>
  "retake_msg = [45908, 32, 49440, 47749, 54620, 32, 49324, 51652, 51012, 32, 45796, 49884, 32,
     52237, 50612, 51452, 49464, 50836, 46]"
definition failed_msg :: ustring where \<comment> \<open>"An error occurred while analysing the document."\<close>
  "failed_msg = [47928, 49436, 32, 48516, 49437, 32, 51473, 32, 50724, 47448, 44032, 32, 48156,
     49373, 54664, 49845, 45768, 45796, 46]"
definition error_prefix :: ustring where \<comment> \<open>"Error: "\<close>
  "error_prefix = [50724, 47448, 58, 32]"
definition retry_msg :: ustring where \<comment> \<open>"Please try again."\<close>
  "retry_msg = [45796, 49884, 32, 49884, 46020, 54644, 51452, 49464, 50836, 46]"

text \<open>
  A statement of the \<open>try\<close> block that raises leaves the block with the result object
  as it is at that moment.
\<close>

definition attempt ::
  "exn + 'a \<Rightarrow> analysis_result \<Rightarrow> ('a \<Rightarrow> exn option \<times> analysis_result) \<Rightarrow>
   exn option \<times> analysis_result" where
  "attempt m r f = (case m of Inl e \<Rightarrow> (Some e, r) | Inr x \<Rightarrow> f x)"

definition risk_of_penalty :: "pyval \<Rightarrow> ustring" where
  "risk_of_penalty penalty_risk =
     (if penalty_risk = PStr s_HIGH then s_HIGH
      else if penalty_risk = PStr s_MEDIUM then s_MEDIUM
      else s_LOW)"

text \<open>Stage 7's results are copied into the result object, field by field.\<close>

definition copy_simplified :: "pyval \<Rightarrow> analysis_result \<Rightarrow> exn option \<times> analysis_result" where
  "copy_simplified simplified r =
     attempt (py_get simplified k_summary_one_line (PStr [])) r (\<lambda>v.
     let r = r\<lparr> summary_one_line := v \<rparr> in
     attempt (py_get simplified k_what_is_this (PStr [])) r (\<lambda>v.
     let r = r\<lparr> what_is_this := v \<rparr> in
     attempt (py_get simplified k_key_points (PList [])) r (\<lambda>v.
     let r = r\<lparr> key_points := v \<rparr> in
     attempt (py_get simplified k_steps_easy (PList [])) r (\<lambda>v.
     let r = r\<lparr> steps_easy := v \<rparr> in
     attempt (py_get simplified k_risk_level (risk_level r)) r (\<lambda>v.
     let r = r\<lparr> risk_level := v \<rparr> in
     attempt (py_get simplified k_dont_worry (PStr [])) r (\<lambda>v.
     let r = r\<lparr> dont_worry := v \<rparr> in
     attempt (py_get simplified k_need_help_message (PStr [])) r (\<lambda>v.
     (None, r\<lparr> need_help_message := v \<rparr>))))))))"

text \<open>
  Stages 3 to 7, the part of the \<open>try\<close> block that \<open>analyze\<close> and \<open>analyze_text\<close> share.
  The result is the exception that left the block, if any, and the result object.
\<close>

definition stages :: "run_env \<Rightarrow> ustring \<Rightarrow> analysis_result \<Rightarrow> exn option \<times> analysis_result" where
  "stages env full_text r =
     attempt (classifier_process (llm_classify env)) r (\<lambda>classification.
     attempt (py_get classification k_doc_type (PStr other_type)) r (\<lambda>v.
     let r = r\<lparr> doc_type := v \<rparr> in
     attempt (py_get classification k_doc_type_name (PStr other_name)) r (\<lambda>v.
     let r = r\<lparr> doc_type_name := v \<rparr> in
     attempt (py_get classification k_organization (PStr [])) r (\<lambda>v.
     let r = r\<lparr> organization := v \<rparr> in
     attempt (extractor_process (uni_digit env) full_text (doc_type r) (llm_extract env)) r (\<lambda>facts.
     let r = r\<lparr> key_info := facts \<rparr> in
     attempt (py_get facts k_action_required (PBool False)) r (\<lambda>v.
     let r = r\<lparr> action_required := v \<rparr> in
     attempt (py_get facts k_penalty_risk (PStr s_NONE)) r (\<lambda>penalty_risk.
     let r = r\<lparr> risk_level := PStr (risk_of_penalty penalty_risk) \<rparr> in
     attempt (rag_outcome env) r (\<lambda>rag.
     attempt (py_get (rag_dict rag) k_retrieved_chunks (PList [])) r (\<lambda>v.
     let r = r\<lparr> evidence_chunks := v \<rparr> in
     attempt (planner_process (uni_lower env) (doc_type r) facts (rag_dict rag) (llm_plan env)) r (\<lambda>plan.
     let r = r\<lparr> action_plan := plan \<rparr> in
     attempt (simplifier_process (doc_type_name r) facts plan rag (llm_simplify env)) r (\<lambda>simplified.
     copy_simplified simplified r)))))))))))"

text \<open>
  The same block in two parts. \<open>planned\<close> is the block up to and including
  \<open>result.action_plan = action_plan\<close> (stages 3 to 6): it yields the exception and the
  result object when a statement raises, and otherwise the plan that the planner
  returned, what retrieval returned, and the result object. \<open>simplification\<close> is the
  rest of the block (stage 7 and the copying of its results).
\<close>

definition attempt_until ::
  "exn + 'a \<Rightarrow> analysis_result \<Rightarrow> ('a \<Rightarrow> (exn \<times> analysis_result) + 'b) \<Rightarrow>
   (exn \<times> analysis_result) + 'b" where
  "attempt_until m r f = (case m of Inl e \<Rightarrow> Inl (e, r) | Inr x \<Rightarrow> f x)"

definition planned ::
  "run_env \<Rightarrow> ustring \<Rightarrow> analysis_result \<Rightarrow>
   (exn \<times> analysis_result) + (pyval \<times> rag_result \<times> analysis_result)" where
  "planned env full_text r =
     attempt_until (classifier_process (llm_classify env)) r (\<lambda>classification.
     attempt_until (py_get classification k_doc_type (PStr other_type)) r (\<lambda>v.
     let r = r\<lparr> doc_type := v \<rparr> in
     attempt_until (py_get classification k_doc_type_name (PStr other_name)) r (\<lambda>v.
     let r = r\<lparr> doc_type_name := v \<rparr> in
     attempt_until (py_get classification k_organization (PStr [])) r (\<lambda>v.
     let r = r\<lparr> organization := v \<rparr> in
     attempt_until (extractor_process (uni_digit env) full_text (doc_type r) (llm_extract env)) r (\<lambda>facts.
     let r = r\<lparr> key_info := facts \<rparr> in
     attempt_until (py_get facts k_action_required (PBool False)) r (\<lambda>v.
     let r = r\<lparr> action_required := v \<rparr> in
     attempt_until (py_get facts k_penalty_risk (PStr s_NONE)) r (\<lambda>penalty_risk.
     let r = r\<lparr> risk_level := PStr (risk_of_penalty penalty_risk) \<rparr> in
     attempt_until (rag_outcome env) r (\<lambda>rag.
     attempt_until (py_get (rag_dict rag) k_retrieved_chunks (PList [])) r (\<lambda>v.
     let r = r\<lparr> evidence_chunks := v \<rparr> in
     attempt_until (planner_process (uni_lower env) (doc_type r) facts (rag_dict rag) (llm_plan env)) r (\<lambda>plan.
     Inr (plan, rag, r\<lparr> action_plan := plan \<rparr>)))))))))))"

definition simplification ::
  "run_env \<Rightarrow> pyval \<Rightarrow> rag_result \<Rightarrow> analysis_result \<Rightarrow> exn option \<times> analysis_result" where
  "simplification env plan rag r =
     attempt (simplifier_process (doc_type_name r) (key_info r) plan rag (llm_simplify env)) r
       (\<lambda>simplified. copy_simplified simplified r)"

text \<open>The \<open>except Exception as e\<close> clause.\<close>

definition on_exception :: "run_env \<Rightarrow> exn option \<times> analysis_result \<Rightarrow> analysis_result" where
  "on_exception env outcome =
     (case outcome of
        (None, r) \<Rightarrow> r
      | (Some e, r) \<Rightarrow>
          r\<lparr> summary_one_line := PStr failed_msg,
             what_is_this := PStr (error_prefix @ exn_str env e),
             steps_easy := PList [PStr retry_msg] \<rparr>)"

text \<open>
  The \<open>finally\<close> clause: \<open>int((time.time() - start_time) * 1000)\<close>. \<open>int\<close> of a float
  truncates towards zero. The arithmetic is exact here; the rounding of doubles is not
  modelled.
\<close>

definition py_int :: "real \<Rightarrow> int" where
  "py_int x = (if 0 \<le> x then \<lfloor>x\<rfloor> else \<lceil>x\<rceil>)"

definition elapsed_ms :: "run_env \<Rightarrow> int" where
  "elapsed_ms env = py_int ((clock_end env - clock_start env) * 1000)"

definition finally_clause :: "run_env \<Rightarrow> analysis_result \<Rightarrow> analysis_result" where
  "finally_clause env r = r\<lparr> processing_time_ms := elapsed_ms env \<rparr>"

text \<open>\<open>analyze_text(text)\<close>.\<close>

definition analyze_text :: "run_env \<Rightarrow> ustring \<Rightarrow> analysis_result" where
  "analyze_text env text =
     finally_clause env (on_exception env (stages env text (new_result\<lparr> ocr_confidence := 100 \<rparr>)))"

text \<open>\<open>sep.join(xs)\<close> and \<open>s.strip()\<close>.\<close>

fun join :: "ustring \<Rightarrow> ustring list \<Rightarrow> ustring" where
  "join sep [] = []"
| "join sep [x] = x"
| "join sep (x # y # ys) = x @ sep @ join sep (y # ys)"

definition strip :: "ustring \<Rightarrow> ustring" where
  "strip s = rev (dropWhile is_space (rev (dropWhile is_space s)))"

text \<open>
  The combined text of the pages: \<open>"\n\n".join([r.text for r in ocr_results])\<close>, a
  \<open>TypeError\<close> when a page's text is \<open>None\<close>.
\<close>

definition page_texts :: "(ustring option \<times> real) list \<Rightarrow> exn + ustring" where
  "page_texts pages =
     (case those (map fst pages) of
        None \<Rightarrow> Inl TypeError
      | Some texts \<Rightarrow> Inr (join [10, 10] texts))"

definition avg_confidence :: "(ustring option \<times> real) list \<Rightarrow> real" where
  \<comment> \<open>\<open>sum(...) / len(ocr_results) if ocr_results else 0\<close>\<close>
  "avg_confidence pages =
     (if pages \<noteq> [] then sum_list (map snd pages) / real (length pages) else 0)"

text \<open>
  \<open>analyze(file_path)\<close>: stages 1 and 2 deliver the pages, then the early return on a
  text that is empty after \<open>strip()\<close>, else stages 3 to 7. The \<open>finally\<close> clause also
  runs on the early return.
\<close>

definition analyze_body :: "run_env \<Rightarrow> exn option \<times> analysis_result" where
  "analyze_body env =
     attempt (acquired env) new_result (\<lambda>pages.
     attempt (page_texts pages) new_result (\<lambda>full_text.
     let r = new_result\<lparr> ocr_confidence := avg_confidence pages \<rparr> in
     if strip full_text = [] then
       (None, r\<lparr> summary_one_line := PStr unreadable_msg,
                 what_is_this := PStr unreadable_what,
                 steps_easy := PList [PStr retake_msg] \<rparr>)
     else stages env full_text r))"

definition analyze :: "run_env \<Rightarrow> analysis_result" where
  "analyze env = finally_clause env (on_exception env (analyze_body env))"

text \<open>The exception, if any, that leaves the \<open>try\<close> block of a run.\<close>

definition text_run_exception :: "run_env \<Rightarrow> ustring \<Rightarrow> exn option" where
  "text_run_exception env text = fst (stages env text (new_result\<lparr> ocr_confidence := 100 \<rparr>))"

definition file_run_exception :: "run_env \<Rightarrow> exn option" where
  "file_run_exception env = fst (analyze_body env)"

text \<open>
  The plan that the planner returned in a run, if the run got through the planning
  stage; \<open>None\<close> when an exception left the block before that, and for \<open>analyze\<close> also
  when acquisition raised or the run returned early on an unreadable document.
\<close>

definition text_run_plan :: "run_env \<Rightarrow> ustring \<Rightarrow> pyval option" where
  "text_run_plan env text =
     (case planned env text (new_result\<lparr> ocr_confidence := 100 \<rparr>) of
        Inl failure \<Rightarrow> None
      | Inr (plan, rag, r) \<Rightarrow> Some plan)"

definition file_run_plan :: "run_env \<Rightarrow> pyval option" where
  "file_run_plan env =
     (case acquired env of
        Inl e \<Rightarrow> None
      | Inr pages \<Rightarrow>
          (case page_texts pages of
             Inl e \<Rightarrow> None
           | Inr full_text \<Rightarrow>
               if strip full_text = [] then None
               else (case planned env full_text (new_result\<lparr> ocr_confidence := avg_confidence pages \<rparr>) of
                       Inl failure \<Rightarrow> None
                     | Inr (plan, rag, r) \<Rightarrow> Some plan)))"

section \<open>Example runs\<close>

text \<open>
  A run on a one-page arrears notice ("che-nap go-ji-seo"): the classifier and the
  extractor answer with a high-risk notice, retrieval finds nothing, the planner
  answers with one step, and the simplifier answers \<open>risk_level = LOW\<close> and nothing
  else. The type code has no cased letters, so \<open>lower\<close> leaves it as it is.
\<close>

definition sample_text :: ustring where
  "sample_text = s_chenap @ [32] @ s_gojiseo"

definition sample_env :: run_env where
  "sample_env =
     \<lparr> uni_lower = (\<lambda>s. s),
       uni_digit = ascii_digit,
       exn_str = (\<lambda>e. case e of Raised m \<Rightarrow> m | _ \<Rightarrow> []),
       clock_start = 10,
       clock_end = 25 / 2,
       acquired = Inr [(Some sample_text, 95)],
       llm_classify = Inr (PDict [(k_doc_type, PStr s_gojiseo), (k_doc_type_name, PStr s_gojiseo)]),
       llm_extract = Inr (PDict [(k_penalty_risk, PStr s_HIGH), (k_action_required, PBool True)]),
       rag_outcome = Inr \<lparr> retrieved_chunks = [], query = s_gojiseo, summary = PStr [],
                           rag_error = None \<rparr>,
       llm_plan = Inr (PDict [(k_steps, PList [PStr s_napbu])]),
       llm_simplify = Inr (PDict [(k_risk_level, PStr s_LOW)]) \<rparr>"

text \<open>
  The scenario text of the specification: nap-bu-geum-aek \<open>": 150,000"\<close> won \<open>", "\<close>
  nap-bu-gi-han \<open>": 2025-01-31, "\<close> mun-ui \<open>": 1577-1000"\<close>.
\<close>

definition scenario_text :: ustring where
  "scenario_text =
     [45225, 48512, 44552, 50529] @ asc '': 150,000'' @ [c_won] @ asc '', '' @
     [45225, 48512, 44592, 54620] @ asc '': 2025-01-31, '' @
     [47928, 51032] @ asc '': 1577-1000''"

text \<open>The same run with a simplifier that answers \<open>risk_level = HIGH\<close>.\<close>

definition faithful_env :: run_env where
  "faithful_env = sample_env\<lparr> llm_simplify := Inr (PDict [(k_risk_level, PStr s_HIGH)]) \<rparr>"

text \<open>The same run with a planner whose generative call raises.\<close>

definition failing_env :: run_env where
  "failing_env = sample_env\<lparr> llm_plan := Inl (Raised (asc ''timeout'')) \<rparr>"

text \<open>The same run with a simplifier whose generative call raises.\<close>

definition unsimplified_env :: run_env where
  "unsimplified_env = sample_env\<lparr> llm_simplify := Inl (Raised (asc ''timeout'')) \<rparr>"

text \<open>The same run with a simplifier that answers with an empty dict.\<close>

definition silent_env :: run_env where
  "silent_env = sample_env\<lparr> llm_simplify := Inr (PDict []) \<rparr>"

text \<open>The plan of these runs: the planner's answer with the two missing keys filled.\<close>

definition sample_plan :: pyval where
  "sample_plan =
     PDict [ (k_steps, PList [PStr s_napbu]), (k_action_type, PStr (action_value URGENT)),
             (k_urgency, PStr s_HIGH) ]"

text \<open>The facts of these runs: the extractor's answer with its six missing keys filled.\<close>

definition sample_facts :: "(ustring \<times> pyval) list" where
  "sample_facts =
     [ (k_penalty_risk, PStr s_HIGH), (k_action_required, PBool True), (k_amount, PNone),
       (k_due_date, PNone), (k_organization, PNone), (k_contact, PNone),
       (k_account_number, PNone), (k_recipient_name, PNone) ]"

text \<open>The same run with an OCR that delivers one page of white space.\<close>

definition blank_env :: run_env where
  "blank_env = sample_env\<lparr> acquired := Inr [(Some [32, 10], 95)] \<rparr>"

section \<open>Dictionaries and default filling\<close>

lemma py_get_dict: "py_get (PDict d) k dflt = Inr (case map_of d k of Some x \<Rightarrow> x | None \<Rightarrow> dflt)"
  by (simp add: py_get_def)

lemma py_get_Inr: "py_get v k dflt = Inr x \<Longrightarrow> \<exists>d. v = PDict d"
  by (cases v) (simp_all add: py_get_def)

lemma map_of_dict_set: "map_of (dict_set d k x) k' = (if k' = k then Some x else map_of d k')"
  by (induction d) auto

lemma fill_missing_dict:
  "fill_missing k dflt (PDict d) = Inr (PDict (if map_of d k = None then dict_set d k dflt else d))"
  by (simp add: fill_missing_def andthen_def py_in_def py_setitem_def)

lemma fill_missing_or_empty_dict:
  "fill_missing_or_empty k dflt (PDict d) =
     Inr (PDict (case map_of d k of Some v \<Rightarrow> if truthy v then d else dict_set d k dflt
                                  | None \<Rightarrow> dict_set d k dflt))"
  by (auto simp add: fill_missing_or_empty_def andthen_def py_in_def py_setitem_def py_getitem_def
      split: option.splits)

lemma fill_missing_or_empty_Inr:
  assumes "fill_missing_or_empty k dflt r = Inr r'"
  shows "\<exists>d. r = PDict d"
  using assms
  by (cases r) (auto simp add: fill_missing_or_empty_def andthen_def py_in_def py_setitem_def py_getitem_def
      split: if_splits)

lemma fill_missing_Inr_dict:
  assumes "fill_missing k dflt (PDict d) = Inr r'"
  shows "\<exists>d'. r' = PDict d' \<and> (\<forall>k'. k' \<noteq> k \<longrightarrow> map_of d' k' = map_of d k')"
  using assms by (auto simp add: fill_missing_dict map_of_dict_set)

lemma andthen_Inl: "andthen (Inl e) f = Inl e"
  by (simp add: andthen_def)

lemma andthen_Inr: "andthen (Inr x) f = f x"
  by (simp add: andthen_def)

lemma foldl_andthen_Inl:
  "foldl (\<lambda>r (k, dflt). andthen r (g k dflt)) (Inl e) defaults = Inl e"
  by (induction defaults) (auto simp add: andthen_def)

lemma fill_defaults_dict:
  "\<exists>d'. fill_defaults defaults (PDict d) = Inr (PDict d') \<and>
     (\<forall>k. map_of d' k = (case map_of d k of Some v \<Rightarrow> Some v | None \<Rightarrow> map_of defaults k))"
proof (induction defaults arbitrary: d)
  case Nil
  then show ?case by (simp add: fill_defaults_def split: option.splits)
next
  case (Cons kd defaults)
  obtain k dflt where kd: "kd = (k, dflt)" by (cases kd)
  define d1 where "d1 = (if map_of d k = None then dict_set d k dflt else d)"
  have step: "fill_defaults (kd # defaults) (PDict d) = fill_defaults defaults (PDict d1)"
    by (simp add: fill_defaults_def kd andthen_def fill_missing_dict d1_def)
  obtain d' where d': "fill_defaults defaults (PDict d1) = Inr (PDict d')"
    "\<forall>k'. map_of d' k' = (case map_of d1 k' of Some v \<Rightarrow> Some v | None \<Rightarrow> map_of defaults k')"
    using Cons.IH[of d1] by blast
  have "\<forall>k'. map_of d' k' = (case map_of d k' of Some v \<Rightarrow> Some v | None \<Rightarrow> map_of (kd # defaults) k')"
    using d'(2) by (auto simp add: d1_def kd map_of_dict_set split: option.splits)
  with step d'(1) show ?case by auto
qed

lemma fill_defaults_or_empty_dict:
  assumes "distinct (map fst defaults)"
  shows "\<exists>d'. fill_defaults_or_empty defaults (PDict d) = Inr (PDict d') \<and>
     (\<forall>k. map_of d' k =
        (case map_of defaults k of
           None \<Rightarrow> map_of d k
         | Some dflt \<Rightarrow> Some (case map_of d k of Some v \<Rightarrow> if truthy v then v else dflt | None \<Rightarrow> dflt)))"
  using assms
proof (induction defaults arbitrary: d)
  case Nil
  then show ?case by (simp add: fill_defaults_or_empty_def)
next
  case (Cons kd defaults)
  obtain k dflt where kd: "kd = (k, dflt)" by (cases kd)
  define d1 where "d1 = (case map_of d k of Some v \<Rightarrow> if truthy v then d else dict_set d k dflt
                                  | None \<Rightarrow> dict_set d k dflt)"
  have step: "fill_defaults_or_empty (kd # defaults) (PDict d) = fill_defaults_or_empty defaults (PDict d1)"
    by (simp add: fill_defaults_or_empty_def kd andthen_def fill_missing_or_empty_dict d1_def)
  have dist: "distinct (map fst defaults)" and fresh: "map_of defaults k = None"
    using Cons.prems by (auto simp add: kd map_of_eq_None_iff)
  obtain d' where d': "fill_defaults_or_empty defaults (PDict d1) = Inr (PDict d')"
    "\<forall>k'. map_of d' k' =
        (case map_of defaults k' of
           None \<Rightarrow> map_of d1 k'
         | Some dflt \<Rightarrow> Some (case map_of d1 k' of Some v \<Rightarrow> if truthy v then v else dflt | None \<Rightarrow> dflt))"
    using Cons.IH[OF dist, of d1] by blast
  have d1k: "map_of d1 k = Some (case map_of d k of Some v \<Rightarrow> if truthy v then v else dflt | None \<Rightarrow> dflt)"
    by (auto simp add: d1_def map_of_dict_set split: option.splits)
  have d1o: "\<And>k'. k' \<noteq> k \<Longrightarrow> map_of d1 k' = map_of d k'"
    by (auto simp add: d1_def map_of_dict_set split: option.splits)
  have "\<forall>k'. map_of d' k' =
        (case map_of (kd # defaults) k' of
           None \<Rightarrow> map_of d k'
         | Some dflt \<Rightarrow> Some (case map_of d k' of Some v \<Rightarrow> if truthy v then v else dflt | None \<Rightarrow> dflt))"
  proof
    fix k'
    show "map_of d' k' =
        (case map_of (kd # defaults) k' of
           None \<Rightarrow> map_of d k'
         | Some dflt \<Rightarrow> Some (case map_of d k' of Some v \<Rightarrow> if truthy v then v else dflt | None \<Rightarrow> dflt))"
    proof (cases "k' = k")
      case True
      then show ?thesis using d'(2) fresh d1k by (simp add: kd)
    next
      case False
      then show ?thesis using d'(2) d1o[OF False] by (simp add: kd split: option.splits)
    qed
  qed
  with step d'(1) show ?case by auto
qed

lemma fill_defaults_or_empty_Inr:
  assumes "fill_defaults_or_empty (kd # defaults) r = Inr r'"
  shows "\<exists>d. r = PDict d"
proof (cases "fill_missing_or_empty (fst kd) (snd kd) r")
  case (Inl e)
  then have "fill_defaults_or_empty (kd # defaults) r = Inl e"
    by (cases kd) (simp add: fill_defaults_or_empty_def andthen_Inr foldl_andthen_Inl)
  with assms show ?thesis by simp
next
  case (Inr r1)
  then show ?thesis by (rule fill_missing_or_empty_Inr)
qed

lemma simplifier_keys_distinct: "distinct (map fst simplifier_defaults)"
  by (simp add: simplifier_defaults_def k_summary_one_line_def k_risk_level_def k_risk_message_def
      k_what_is_this_def k_key_points_def k_steps_easy_def k_help_channels_def k_dont_worry_def
      k_need_help_message_def asc_def)

section \<open>The Planner's decision table\<close>

lemma truthy_get: "truthy (case map_of d k of Some x \<Rightarrow> x | None \<Rightarrow> PNone) = field_present d k"
  by (simp add: field_present_def split: option.splits)

lemma high_get:
  "((case map_of d k_penalty_risk of Some x \<Rightarrow> x | None \<Rightarrow> PNone) = PStr s_HIGH) = risk_is_high d"
  by (auto simp add: risk_is_high_def split: option.splits)

text \<open>
  Claim C7. For a type code (a string) and facts (a dict), \<open>_determine_action_type\<close>
  returns the action of the first matching rule of the priority table: amount and due
  date present with risk HIGH give URGENT; amount and due date present give PAY; action
  required with risk HIGH gives URGENT; action required gives CHECK; a type code
  containing go-ji-seo or nap-bu (notice, payment) with an amount gives PAY; a type code
  containing tong-ji-seo or che-nap (notification, arrears) gives URGENT; a type code
  containing an-nae-mun (information notice) gives NONE; anything else gives CHECK.
  The substrings are looked for in the lower-cased type code.
\<close>

theorem action_type_is_first_matching_rule:
  "determine_action_type lower (PStr type_code) (PDict facts) =
     Inr (action_type_table
            (field_present facts k_amount) (field_present facts k_due_date)
            (risk_is_high facts) (field_present facts k_action_required)
            (is_substr s_gojiseo (lower type_code) \<or> is_substr s_napbu (lower type_code))
            (is_substr s_tongjiseo (lower type_code) \<or> is_substr s_chenap (lower type_code))
            (is_substr s_annaemun (lower type_code)))"
  unfolding determine_action_type_def action_type_table_def first_matching_rule_def
  by (simp add: andthen_def py_get_dict truthy_get high_get py_lower_def)

text \<open>
  An instance: the type code "che-nap go-ji-seo" with no amount, no date and nothing
  required matches rule 6 first (rule 5 needs an amount) and gives URGENT.
\<close>

theorem action_type_is_first_matching_rule_witness:
  "determine_action_type (\<lambda>s. s) (PStr (s_chenap @ [32] @ s_gojiseo))
     (PDict [(k_amount, PNone), (k_due_date, PNone), (k_penalty_risk, PStr s_NONE),
             (k_action_required, PBool False)]) = Inr URGENT"
  by (simp add: action_type_is_first_matching_rule action_type_table_def first_matching_rule_def
      field_present_def risk_is_high_def s_chenap_def s_gojiseo_def s_napbu_def s_tongjiseo_def
      s_annaemun_def k_amount_def k_due_date_def k_penalty_risk_def k_action_required_def
      s_NONE_def s_HIGH_def asc_def)

section \<open>The Planner's fallbacks\<close>

lemma determine_action_type_returns:
  "\<exists>a. determine_action_type lower (PStr type_code) (PDict facts) = Inr a"
  unfolding determine_action_type_def
  by (simp add: andthen_def py_get_dict py_lower_def)

lemma determine_urgency_returns: "\<exists>u. determine_urgency (PDict facts) = Inr u"
  by (simp add: determine_urgency_def andthen_def py_get_dict)

lemma generate_action_plan_dict:
  "\<exists>d'. generate_action_plan (PDict facts) a u (PDict rc) (Inr (PDict d)) = Inr (PDict d') \<and>
     map_of d' k_action_type =
       Some (case map_of d k_action_type of Some v \<Rightarrow> v | None \<Rightarrow> PStr (action_value a)) \<and>
     map_of d' k_urgency = Some (case map_of d k_urgency of Some v \<Rightarrow> v | None \<Rightarrow> PStr u) \<and>
     map_of d' k_steps = Some (generated_or_default d k_steps (PList [PStr steps_fallback]))"
  by (auto simp add: generate_action_plan_def plan_prompt_inputs_def andthen_def py_get_dict
      fill_missing_dict fill_missing_or_empty_dict map_of_dict_set generated_or_default_def
      k_action_type_def k_urgency_def k_steps_def asc_def split: option.splits)

lemma planner_process_steps:
  "\<exists>d'. planner_process lower (PStr type_code) (PDict facts) (PDict rc) (Inr (PDict d)) =
           Inr (PDict d') \<and>
         map_of d' k_steps = Some (generated_or_default d k_steps (PList [PStr steps_fallback]))"
proof -
  obtain a where a: "determine_action_type lower (PStr type_code) (PDict facts) = Inr a"
    using determine_action_type_returns by blast
  obtain u where u: "determine_urgency (PDict facts) = Inr u"
    using determine_urgency_returns by blast
  obtain d' where d':
    "generate_action_plan (PDict facts) a u (PDict rc) (Inr (PDict d)) = Inr (PDict d')"
    "map_of d' k_steps = Some (generated_or_default d k_steps (PList [PStr steps_fallback]))"
    using generate_action_plan_dict by blast
  have "planner_process lower (PStr type_code) (PDict facts) (PDict rc) (Inr (PDict d)) =
          Inr (PDict d')"
    by (simp add: planner_process_def andthen_def a u d'(1))
  with d'(2) show ?thesis by blast
qed

text \<open>
  Claim C8. In the plan that \<open>ActionPlanner.process\<close> returns for a dict \<open>d\<close> delivered
  by the generative step, \<open>action_type\<close> and \<open>urgency\<close> are the values of \<open>d\<close> whenever
  \<open>d\<close> has the key; the action \<open>a\<close> of the decision table and the derived urgency \<open>u\<close>
  are used only for a key that \<open>d\<close> lacks.
\<close>

theorem generated_action_type_and_urgency_win:
  "\<exists>a u d'. determine_action_type lower (PStr type_code) (PDict facts) = Inr a \<and>
     determine_urgency (PDict facts) = Inr u \<and>
     planner_process lower (PStr type_code) (PDict facts) (PDict rc) (Inr (PDict d)) = Inr (PDict d') \<and>
     map_of d' k_action_type =
       Some (case map_of d k_action_type of Some v \<Rightarrow> v | None \<Rightarrow> PStr (action_value a)) \<and>
     map_of d' k_urgency = Some (case map_of d k_urgency of Some v \<Rightarrow> v | None \<Rightarrow> PStr u)"
proof -
  obtain a where a: "determine_action_type lower (PStr type_code) (PDict facts) = Inr a"
    using determine_action_type_returns by blast
  obtain u where u: "determine_urgency (PDict facts) = Inr u"
    using determine_urgency_returns by blast
  obtain d' where d':
    "generate_action_plan (PDict facts) a u (PDict rc) (Inr (PDict d)) = Inr (PDict d')"
    "map_of d' k_action_type =
       Some (case map_of d k_action_type of Some v \<Rightarrow> v | None \<Rightarrow> PStr (action_value a))"
    "map_of d' k_urgency = Some (case map_of d k_urgency of Some v \<Rightarrow> v | None \<Rightarrow> PStr u)"
    using generate_action_plan_dict by blast
  have "planner_process lower (PStr type_code) (PDict facts) (PDict rc) (Inr (PDict d)) =
          Inr (PDict d')"
    by (simp add: planner_process_def andthen_def a u d'(1))
  with a u d' show ?thesis by blast
qed

text \<open>
  An instance where the two disagree: the facts are high-risk arrears (the table says
  URGENT, the urgency is HIGH), the generative step answers \<open>action_type = NONE\<close> and
  \<open>urgency = LOW\<close>, and the plan carries the generative values.
\<close>

theorem generated_action_type_and_urgency_win_witness:
  "\<exists>d'. determine_action_type (\<lambda>s. s) (PStr s_chenap)
            (PDict [(k_penalty_risk, PStr s_HIGH), (k_action_required, PBool True)]) = Inr URGENT \<and>
     determine_urgency (PDict [(k_penalty_risk, PStr s_HIGH), (k_action_required, PBool True)])
       = Inr s_HIGH \<and>
     planner_process (\<lambda>s. s) (PStr s_chenap)
        (PDict [(k_penalty_risk, PStr s_HIGH), (k_action_required, PBool True)]) (PDict [])
        (Inr (PDict [(k_action_type, PStr (action_value NONE)), (k_urgency, PStr s_LOW)]))
       = Inr (PDict d') \<and>
     map_of d' k_action_type = Some (PStr (action_value NONE)) \<and>
     map_of d' k_urgency = Some (PStr s_LOW)"
proof -
  let ?facts = "[(k_penalty_risk, PStr s_HIGH), (k_action_required, PBool True)]"
  let ?d = "[(k_action_type, PStr (action_value NONE)), (k_urgency, PStr s_LOW)]"
  have a: "determine_action_type (\<lambda>s. s) (PStr s_chenap) (PDict ?facts) = Inr URGENT"
    unfolding determine_action_type_def
    by (simp add: andthen_def py_get_dict k_amount_def k_penalty_risk_def k_action_required_def
        asc_def)
  have u: "determine_urgency (PDict ?facts) = Inr s_HIGH"
    by (simp add: determine_urgency_def andthen_def py_get_dict)
  have k: "k_urgency \<noteq> k_action_type"
    by (simp add: k_urgency_def k_action_type_def asc_def)
  from generated_action_type_and_urgency_win [of "\<lambda>s. s" s_chenap ?facts "[]" ?d]
  show ?thesis using k by (simp add: a u)
qed

section \<open>The Extractor's risk fields\<close>

text \<open>
  Claim C1, as the code has it. No lexical marker is looked for in code: for a dict \<open>d\<close>
  delivered by the generative refinement, the facts that \<open>InfoExtractor.process\<close>
  returns carry the \<open>penalty_risk\<close> and \<open>action_required\<close> of \<open>d\<close>, whatever the text
  contains; \<open>"NONE"\<close> and \<open>False\<close> are filled in only for a key that \<open>d\<close> lacks.
\<close>

theorem extractor_returns_generated_risk:
  "\<exists>d'. extractor_process dg text type_code (Inr (PDict d)) = Inr (PDict d') \<and>
     map_of d' k_penalty_risk =
       Some (case map_of d k_penalty_risk of Some v \<Rightarrow> v | None \<Rightarrow> PStr s_NONE) \<and>
     map_of d' k_action_required =
       Some (case map_of d k_action_required of Some v \<Rightarrow> v | None \<Rightarrow> PBool False)"
proof -
  obtain d' where d': "fill_defaults extractor_defaults (PDict d) = Inr (PDict d')"
    "\<forall>k. map_of d' k = (case map_of d k of Some v \<Rightarrow> Some v | None \<Rightarrow> map_of extractor_defaults k)"
    using fill_defaults_dict by blast
  have r: "map_of extractor_defaults k_penalty_risk = Some (PStr s_NONE)"
    by (simp add: extractor_defaults_def k_amount_def k_due_date_def k_organization_def
        k_penalty_risk_def asc_def)
  have q: "map_of extractor_defaults k_action_required = Some (PBool False)"
    by (simp add: extractor_defaults_def k_amount_def k_due_date_def k_organization_def
        k_penalty_risk_def k_action_required_def asc_def)
  have "extractor_process dg text type_code (Inr (PDict d)) = Inr (PDict d')"
    by (simp add: extractor_process_def extract_with_llm_def andthen_Inr d'(1))
  moreover have "map_of d' k_penalty_risk =
       Some (case map_of d k_penalty_risk of Some v \<Rightarrow> v | None \<Rightarrow> PStr s_NONE)"
    using d'(2) r by (simp split: option.splits)
  moreover have "map_of d' k_action_required =
       Some (case map_of d k_action_required of Some v \<Rightarrow> v | None \<Rightarrow> PBool False)"
    using d'(2) q by (simp split: option.splits)
  ultimately show ?thesis by blast
qed

text \<open>
  An instance: the text is "che-nap" (arrears), the generative refinement answers
  \<open>penalty_risk = MEDIUM\<close> and leaves \<open>action_required\<close> out.
\<close>

theorem extractor_returns_generated_risk_witness:
  "\<exists>d'. extractor_process ascii_digit s_chenap (PStr other_type)
            (Inr (PDict [(k_penalty_risk, PStr s_MEDIUM)])) = Inr (PDict d') \<and>
     map_of d' k_penalty_risk = Some (PStr s_MEDIUM) \<and>
     map_of d' k_action_required = Some (PBool False)"
proof -
  have k: "k_action_required \<noteq> k_penalty_risk"
    by (simp add: k_action_required_def k_penalty_risk_def asc_def)
  from extractor_returns_generated_risk
         [of ascii_digit s_chenap "PStr other_type" "[(k_penalty_risk, PStr s_MEDIUM)]"]
  show ?thesis using k by simp
qed

text \<open>
  Claim C1, as stated, fails: the text "che-nap" contains a high-risk marker, the
  generative refinement answers \<open>penalty_risk = LOW\<close> and \<open>action_required = false\<close>, and
  these are the values of the facts returned.
\<close>

theorem high_risk_marker_not_enforced:
  "is_substr s_chenap s_chenap \<and>
   andthen (extractor_process ascii_digit s_chenap (PStr other_type)
              (Inr (PDict [(k_penalty_risk, PStr s_LOW), (k_action_required, PBool False)])))
           (\<lambda>facts. py_get facts k_penalty_risk PNone) = Inr (PStr s_LOW) \<and>
   andthen (extractor_process ascii_digit s_chenap (PStr other_type)
              (Inr (PDict [(k_penalty_risk, PStr s_LOW), (k_action_required, PBool False)])))
           (\<lambda>facts. py_get facts k_action_required PNone) = Inr (PBool False)"
  by (simp add: extractor_process_def extract_with_llm_def fill_defaults_def extractor_defaults_def
      andthen_def fill_missing_dict map_of_dict_set py_get_dict s_chenap_def
      k_amount_def k_due_date_def k_organization_def k_penalty_risk_def k_action_required_def
      k_contact_def k_account_number_def k_recipient_name_def asc_def)

section \<open>What the stages return\<close>

lemma attempt_Inl: "attempt (Inl e) r f = (Some e, r)"
  by (simp add: attempt_def)

lemma attempt_Inr: "attempt (Inr x) r f = f x"
  by (simp add: attempt_def)

lemma andthen_eq_Inr: "andthen m f = Inr y \<Longrightarrow> \<exists>x. m = Inr x \<and> f x = Inr y"
  by (cases m) (simp_all add: andthen_def)

lemma fill_missing_or_empty_truthy:
  assumes "fill_missing_or_empty k dflt r = Inr r'" and "truthy dflt"
  shows "\<exists>d' v. r' = PDict d' \<and> map_of d' k = Some v \<and> truthy v"
proof -
  obtain d where d: "r = PDict d" using assms(1) fill_missing_or_empty_Inr by blast
  show ?thesis using assms unfolding d fill_missing_or_empty_dict
    by (auto simp add: map_of_dict_set split: option.splits if_splits)
qed

lemma planner_process_Inr:
  assumes "planner_process lower dt facts rag llm = Inr p"
  shows "\<exists>d v. p = PDict d \<and> map_of d k_steps = Some v \<and> truthy v"
proof -
  from assms obtain a u where "generate_action_plan facts a u rag llm = Inr p"
    unfolding planner_process_def by (blast dest: andthen_eq_Inr)
  then obtain result r1 r2 where
    r1: "fill_missing_or_empty k_steps (PList [PStr steps_fallback]) result = Inr r1" and
    r2: "fill_missing k_action_type (PStr (action_value a)) r1 = Inr r2" and
    p: "fill_missing k_urgency (PStr u) r2 = Inr p"
    unfolding generate_action_plan_def by (blast dest: andthen_eq_Inr)
  obtain d1 v where d1: "r1 = PDict d1" "map_of d1 k_steps = Some v" "truthy v"
    using fill_missing_or_empty_truthy[OF r1] by auto
  have k: "k_steps \<noteq> k_action_type" "k_steps \<noteq> k_urgency"
    by (simp_all add: k_steps_def k_action_type_def k_urgency_def asc_def)
  obtain d2 where d2: "r2 = PDict d2" "map_of d2 k_steps = map_of d1 k_steps"
    using fill_missing_Inr_dict[OF r2[unfolded d1(1)]] k by auto
  obtain d3 where d3: "p = PDict d3" "map_of d3 k_steps = map_of d2 k_steps"
    using fill_missing_Inr_dict[OF p[unfolded d2(1)]] k by auto
  show ?thesis using d1 d2 d3 by simp
qed

lemma simplifier_process_Inr:
  assumes "simplifier_process dtn facts plan rag llm = Inr s"
  shows "\<exists>d sd. llm = Inr (PDict d) \<and> s = PDict sd \<and>
           map_of sd k_steps_easy = Some (generated_or_default d k_steps_easy (PList [PStr steps_easy_default])) \<and>
           map_of sd k_risk_level = Some (generated_or_default d k_risk_level (PStr s_LOW))"
proof -
  from assms obtain result where llm: "llm = Inr result"
    and f: "fill_defaults_or_empty simplifier_defaults result = Inr s"
    unfolding simplifier_process_def generate_simple_explanation_def
    by (blast dest: andthen_eq_Inr)
  obtain d where d: "result = PDict d"
    using f fill_defaults_or_empty_Inr unfolding simplifier_defaults_def by blast
  obtain sd where sd: "fill_defaults_or_empty simplifier_defaults (PDict d) = Inr (PDict sd)"
     "\<forall>k. map_of sd k =
        (case map_of simplifier_defaults k of
           None \<Rightarrow> map_of d k
         | Some dflt \<Rightarrow> Some (case map_of d k of Some v \<Rightarrow> if truthy v then v else dflt | None \<Rightarrow> dflt))"
    using fill_defaults_or_empty_dict[OF simplifier_keys_distinct] by blast
  have e: "map_of simplifier_defaults k_steps_easy = Some (PList [PStr steps_easy_default])"
    by (simp add: simplifier_defaults_def k_summary_one_line_def k_risk_level_def k_risk_message_def
      k_what_is_this_def k_key_points_def k_steps_easy_def asc_def)
  have l: "map_of simplifier_defaults k_risk_level = Some (PStr s_LOW)"
    by (simp add: simplifier_defaults_def k_summary_one_line_def k_risk_level_def asc_def)
  have "s = PDict sd" using f sd(1) d by simp
  moreover have "map_of sd k_steps_easy = Some (generated_or_default d k_steps_easy (PList [PStr steps_easy_default]))"
    using sd(2) e by (simp add: generated_or_default_def)
  moreover have "map_of sd k_risk_level = Some (generated_or_default d k_risk_level (PStr s_LOW))"
    using sd(2) l by (simp add: generated_or_default_def)
  ultimately show ?thesis using llm d by blast
qed

lemma copy_simplified_dict:
  "copy_simplified (PDict sd) r =
     (None, r\<lparr> summary_one_line := (case map_of sd k_summary_one_line of Some x \<Rightarrow> x | None \<Rightarrow> PStr []),
               what_is_this := (case map_of sd k_what_is_this of Some x \<Rightarrow> x | None \<Rightarrow> PStr []),
               key_points := (case map_of sd k_key_points of Some x \<Rightarrow> x | None \<Rightarrow> PList []),
               steps_easy := (case map_of sd k_steps_easy of Some x \<Rightarrow> x | None \<Rightarrow> PList []),
               risk_level := (case map_of sd k_risk_level of Some x \<Rightarrow> x | None \<Rightarrow> risk_level r),
               dont_worry := (case map_of sd k_dont_worry of Some x \<Rightarrow> x | None \<Rightarrow> PStr []),
               need_help_message := (case map_of sd k_need_help_message of Some x \<Rightarrow> x | None \<Rightarrow> PStr []) \<rparr>)"
  by (simp add: copy_simplified_def attempt_def py_get_dict Let_def cong: option.case_cong)


lemma copy_simplified_nondict:
  assumes "\<And>d. s \<noteq> PDict d"
  shows "copy_simplified s r = (Some AttributeError, r)"
  using assms by (cases s) (auto simp add: copy_simplified_def attempt_def py_get_def)

lemma stages_action_plan:
  assumes "stages env text r = (x, r')"
  shows "action_plan r' = action_plan r \<or>
         (\<exists>p v. action_plan r' = PDict p \<and> map_of p k_steps = Some v \<and> truthy v)"
  using assms unfolding stages_def attempt_def Let_def
  by (auto split: sum.splits dest!: planner_process_Inr simplifier_process_Inr
        simp add: copy_simplified_dict)


lemmas key_defs = k_amount_def k_due_date_def k_organization_def k_penalty_risk_def
  k_action_required_def k_contact_def k_account_number_def k_recipient_name_def k_steps_def
  k_action_type_def k_urgency_def k_summary_def k_doc_type_def k_doc_type_name_def
  k_confidence_def k_retrieved_chunks_def k_summary_one_line_def k_risk_level_def
  k_risk_message_def k_what_is_this_def k_key_points_def k_steps_easy_def k_help_channels_def
  k_dont_worry_def k_need_help_message_def asc_def

lemmas run_defs = stages_def attempt_def Let_def classifier_process_def extractor_process_def
  extract_with_llm_def fill_defaults_def extractor_defaults_def planner_process_def
  determine_action_type_def determine_urgency_def generate_action_plan_def plan_prompt_inputs_def
  simplifier_process_def generate_simple_explanation_def simplify_prompt_inputs_def
  fill_defaults_or_empty_def simplifier_defaults_def copy_simplified_def rag_dict_def
  andthen_def fill_missing_dict fill_missing_or_empty_dict map_of_dict_set py_get_dict
  py_lower_def risk_of_penalty_def


lemma generated_or_default_truthy: "truthy dflt \<Longrightarrow> truthy (generated_or_default d k dflt)"
  by (simp add: generated_or_default_def split: option.splits)

lemma stages_steps_easy:
  assumes "stages env text r = (None, r')"
  shows "truthy (steps_easy r')"
  using assms unfolding stages_def attempt_def Let_def
  by (auto split: sum.splits dest!: simplifier_process_Inr
        simp add: copy_simplified_dict generated_or_default_truthy)

lemma stages_risk_level:
  assumes "stages env text r = (x, r')" and "key_info r = PDict []"
    and "key_info r' = PDict facts" and "map_of facts k_penalty_risk = Some (PStr s_HIGH)"
  shows "(x \<noteq> None \<longrightarrow> risk_level r' = PStr s_HIGH) \<and>
         (x = None \<longrightarrow> (\<exists>d. llm_simplify env = Inr (PDict d) \<and>
                              risk_level r' = generated_or_default d k_risk_level (PStr s_LOW)))"
  using assms unfolding stages_def attempt_def Let_def
  by (auto split: sum.splits dest!: simplifier_process_Inr
        simp add: copy_simplified_dict py_get_dict risk_of_penalty_def)

lemma on_exception_None: "on_exception env (None, r) = r"
  by (simp add: on_exception_def)

lemma on_exception_Some:
  "on_exception env (Some e, r) =
     r\<lparr> summary_one_line := PStr failed_msg, what_is_this := PStr (error_prefix @ exn_str env e),
        steps_easy := PList [PStr retry_msg] \<rparr>"
  by (simp add: on_exception_def)

lemma on_exception_failed:
  assumes "fst outcome = Some e"
  shows "summary_one_line (on_exception env outcome) = PStr failed_msg \<and>
         steps_easy (on_exception env outcome) = PList [PStr retry_msg]"
  using assms by (cases outcome) (simp add: on_exception_def)

lemma analyze_body_cases:
  "(\<exists>e. analyze_body env = (Some e, new_result)) \<or>
   (\<exists>pages. analyze_body env =
       (None, new_result\<lparr> ocr_confidence := avg_confidence pages,
                summary_one_line := PStr unreadable_msg, what_is_this := PStr unreadable_what,
                steps_easy := PList [PStr retake_msg] \<rparr>)) \<or>
   (\<exists>pages full_text. analyze_body env =
       stages env full_text (new_result\<lparr> ocr_confidence := avg_confidence pages \<rparr>))"
  unfolding analyze_body_def attempt_def Let_def
  by (auto split: sum.splits)

lemma raising_call_leaves_try_block:
  assumes "isl (llm_classify env) \<or> isl (llm_extract env) \<or> isl (rag_outcome env) \<or>
           isl (llm_plan env) \<or> isl (llm_simplify env)"
  shows "text_run_exception env text \<noteq> None"
proof
  assume "text_run_exception env text = None"
  then obtain r where r: "stages env text (new_result\<lparr> ocr_confidence := 100 \<rparr>) = (None, r)"
    by (simp add: text_run_exception_def prod_eq_iff)
  have "\<not> isl (llm_classify env) \<and> \<not> isl (llm_extract env) \<and> \<not> isl (rag_outcome env) \<and>
        \<not> isl (llm_plan env) \<and> \<not> isl (llm_simplify env)"
    using r unfolding stages_def attempt_def Let_def classifier_process_def extractor_process_def
      extract_with_llm_def planner_process_def generate_action_plan_def simplifier_process_def
      generate_simple_explanation_def
    by (auto split: sum.splits simp add: andthen_def)
  with assms show False by blast
qed

lemma delivered_key_info:
  "key_info (finally_clause env (on_exception env (x, r))) = key_info r"
  by (cases x) (simp_all add: finally_clause_def on_exception_def)

lemma delivered_risk_level:
  "risk_level (finally_clause env (on_exception env (x, r))) = risk_level r"
  by (cases x) (simp_all add: finally_clause_def on_exception_def)

lemma generated_or_default_present:
  "map_of d k = Some v \<Longrightarrow> truthy v \<Longrightarrow> generated_or_default d k dflt = v"
  by (simp add: generated_or_default_def)

lemmas sample_defs = sample_env_def faithful_env_def failing_env_def blank_env_def
  sample_text_def sample_facts_def

text \<open>The example runs, evaluated.\<close>

lemma sample_run_stages:
  "text_run_exception sample_env sample_text = None"
  "key_info (analyze_text sample_env sample_text) = PDict sample_facts"
  "risk_level (analyze_text sample_env sample_text) = PStr s_LOW"
  by (simp_all add: analyze_text_def text_run_exception_def finally_clause_def on_exception_def
      sample_defs run_defs key_defs new_result_def s_HIGH_def s_LOW_def s_MEDIUM_def)

lemma faithful_run_stages:
  "text_run_exception faithful_env sample_text = None"
  "key_info (analyze_text faithful_env sample_text) = PDict sample_facts"
  "file_run_exception faithful_env = None"
  "key_info (analyze faithful_env) = PDict sample_facts"
  "llm_simplify faithful_env = Inr (PDict [(k_risk_level, PStr s_HIGH)])"
  by (simp_all add: analyze_text_def analyze_def analyze_body_def page_texts_def strip_def
      is_space_def text_run_exception_def file_run_exception_def finally_clause_def
      on_exception_def sample_defs run_defs key_defs new_result_def s_chenap_def s_gojiseo_def
      s_HIGH_def s_LOW_def s_MEDIUM_def)

lemma failing_run_stages:
  "text_run_exception failing_env sample_text = Some (Raised (asc ''timeout''))"
  "file_run_exception failing_env = Some (Raised (asc ''timeout''))"
  "elapsed_ms failing_env = 2500"
  by (simp_all add: analyze_body_def page_texts_def strip_def is_space_def
      text_run_exception_def file_run_exception_def elapsed_ms_def py_int_def
      sample_defs run_defs key_defs new_result_def s_chenap_def s_gojiseo_def
      s_HIGH_def s_LOW_def s_MEDIUM_def)

section \<open>The risk level of the delivered result\<close>

text \<open>
  Claim C2, as the code has it. Take a run whose extracted \<open>penalty_risk\<close> is HIGH.
  When an exception leaves the \<open>try\<close> block after the extraction, the delivered
  \<open>risk_level\<close> is HIGH. When the run goes through, the simplification stage's
  generative output is a dict \<open>d\<close>, and if \<open>d\<close> has a non-empty (truthy) \<open>risk_level\<close>
  then the delivered \<open>risk_level\<close> is that value: HIGH when the output says HIGH, and
  whatever else it says otherwise. This holds for \<open>analyze_text\<close> and for \<open>analyze\<close>.
\<close>

theorem high_risk_kept_or_generated:
  "(key_info (analyze_text env text) = PDict facts \<and>
    map_of facts k_penalty_risk = Some (PStr s_HIGH) \<longrightarrow>
      (text_run_exception env text \<noteq> None \<longrightarrow>
         risk_level (analyze_text env text) = PStr s_HIGH) \<and>
      (text_run_exception env text = None \<longrightarrow>
         (\<exists>d. llm_simplify env = Inr (PDict d) \<and>
              (\<forall>v. map_of d k_risk_level = Some v \<and> truthy v \<longrightarrow>
                   risk_level (analyze_text env text) = v)))) \<and>
   (key_info (analyze env) = PDict facts \<and>
    map_of facts k_penalty_risk = Some (PStr s_HIGH) \<longrightarrow>
      (file_run_exception env \<noteq> None \<longrightarrow> risk_level (analyze env) = PStr s_HIGH) \<and>
      (file_run_exception env = None \<longrightarrow>
         (\<exists>d. llm_simplify env = Inr (PDict d) \<and>
              (\<forall>v. map_of d k_risk_level = Some v \<and> truthy v \<longrightarrow>
                   risk_level (analyze env) = v))))"
proof -
  have core: "(x \<noteq> None \<longrightarrow> risk_level r' = PStr s_HIGH) \<and>
      (x = None \<longrightarrow> (\<exists>d. llm_simplify env = Inr (PDict d) \<and>
           (\<forall>v. map_of d k_risk_level = Some v \<and> truthy v \<longrightarrow> risk_level r' = v)))"
    if "stages env t (new_result\<lparr> ocr_confidence := c \<rparr>) = (x, r')"
      and "key_info r' = PDict facts" and "map_of facts k_penalty_risk = Some (PStr s_HIGH)"
    for t c x r'
  proof -
    have k: "key_info (new_result\<lparr> ocr_confidence := c \<rparr>) = PDict []"
      by (simp add: new_result_def)
    from stages_risk_level[OF that(1) k that(2) that(3)]
    show ?thesis by (auto simp add: generated_or_default_present)
  qed
  have text_part: "(text_run_exception env text \<noteq> None \<longrightarrow>
         risk_level (analyze_text env text) = PStr s_HIGH) \<and>
      (text_run_exception env text = None \<longrightarrow>
         (\<exists>d. llm_simplify env = Inr (PDict d) \<and>
              (\<forall>v. map_of d k_risk_level = Some v \<and> truthy v \<longrightarrow>
                   risk_level (analyze_text env text) = v)))"
    if h: "key_info (analyze_text env text) = PDict facts"
          "map_of facts k_penalty_risk = Some (PStr s_HIGH)"
  proof -
    obtain x r' where s: "stages env text (new_result\<lparr> ocr_confidence := 100 \<rparr>) = (x, r')"
      by (cases "stages env text (new_result\<lparr> ocr_confidence := 100 \<rparr>)")
    have k: "key_info r' = PDict facts"
      using h(1) by (simp add: analyze_text_def s delivered_key_info)
    from core[OF s k h(2)] show ?thesis
      by (simp add: analyze_text_def text_run_exception_def s delivered_risk_level)
  qed
  have file_part: "(file_run_exception env \<noteq> None \<longrightarrow> risk_level (analyze env) = PStr s_HIGH) \<and>
      (file_run_exception env = None \<longrightarrow>
         (\<exists>d. llm_simplify env = Inr (PDict d) \<and>
              (\<forall>v. map_of d k_risk_level = Some v \<and> truthy v \<longrightarrow>
                   risk_level (analyze env) = v)))"
    if h: "key_info (analyze env) = PDict facts"
          "map_of facts k_penalty_risk = Some (PStr s_HIGH)"
  proof -
    obtain x r' where s: "analyze_body env = (x, r')"
      by (cases "analyze_body env")
    have k: "key_info r' = PDict facts"
      using h(1) by (simp add: analyze_def s delivered_key_info)
    have ne: "facts \<noteq> []" using h(2) by auto
    from analyze_body_cases[of env] k ne
    obtain pages full_text where
      "stages env full_text (new_result\<lparr> ocr_confidence := avg_confidence pages \<rparr>) = (x, r')"
      unfolding s by (auto simp add: new_result_def)
    from core[OF this k h(2)] show ?thesis
      by (simp add: analyze_def file_run_exception_def s delivered_risk_level)
  qed
  from text_part file_part show ?thesis by blast
qed

text \<open>
  An instance: in the run with the simplifier that answers HIGH, both entry points
  go through with HIGH extracted and deliver HIGH.
\<close>

theorem high_risk_kept_or_generated_witness:
  "key_info (analyze_text faithful_env sample_text) = PDict sample_facts \<and>
   key_info (analyze faithful_env) = PDict sample_facts \<and>
   map_of sample_facts k_penalty_risk = Some (PStr s_HIGH) \<and>
   text_run_exception faithful_env sample_text = None \<and>
   file_run_exception faithful_env = None \<and>
   risk_level (analyze_text faithful_env sample_text) = PStr s_HIGH \<and>
   risk_level (analyze faithful_env) = PStr s_HIGH"
proof -
  have m: "map_of sample_facts k_penalty_risk = Some (PStr s_HIGH)"
    by (simp add: sample_facts_def)
  have t: "truthy (PStr s_HIGH)"
    by (simp add: s_HIGH_def asc_def)
  from high_risk_kept_or_generated [of faithful_env sample_text sample_facts]
  have "risk_level (analyze_text faithful_env sample_text) = PStr s_HIGH \<and>
        risk_level (analyze faithful_env) = PStr s_HIGH"
    using m t by (simp add: faithful_run_stages)
  then show ?thesis using m by (simp add: faithful_run_stages)
qed

text \<open>
  Claim C2, as stated, fails: in the sample run the extracted \<open>penalty_risk\<close> is HIGH,
  the simplifier answers \<open>risk_level = LOW\<close>, and the delivered \<open>risk_level\<close> is LOW.
\<close>

theorem high_risk_downgraded_by_simplifier:
  "py_get (key_info (analyze_text sample_env sample_text)) k_penalty_risk PNone = Inr (PStr s_HIGH) \<and>
   risk_level (analyze_text sample_env sample_text) = PStr s_LOW"
  by (simp add: sample_run_stages py_get_dict sample_facts_def)

text \<open>
  The pipeline reads \<open>simplified.get("risk_level", result.risk_level)\<close>, which would fall
  back to the level derived from the extracted \<open>penalty_risk\<close>. The fallback is never
  taken: the Simplifier has already put its own default LOW under the key when the
  generative output has no \<open>risk_level\<close> or an empty one. So a run that goes through
  with HIGH extracted and a generative output without \<open>risk_level\<close> delivers LOW.
\<close>

lemma omitted_risk_level_delivers_low:
  assumes "key_info (analyze_text env text) = PDict facts"
    and "map_of facts k_penalty_risk = Some (PStr s_HIGH)"
    and "text_run_exception env text = None"
    and "llm_simplify env = Inr (PDict d)"
    and "map_of d k_risk_level = None \<or> (\<exists>v. map_of d k_risk_level = Some v \<and> \<not> truthy v)"
  shows "risk_level (analyze_text env text) = PStr s_LOW"
proof -
  obtain x r' where s: "stages env text (new_result\<lparr> ocr_confidence := 100 \<rparr>) = (x, r')"
    by (cases "stages env text (new_result\<lparr> ocr_confidence := 100 \<rparr>)")
  have k0: "key_info (new_result\<lparr> ocr_confidence := 100 \<rparr>) = PDict []"
    by (simp add: new_result_def)
  have k: "key_info r' = PDict facts"
    using assms(1) by (simp add: analyze_text_def s delivered_key_info)
  have x: "x = None" using assms(3) by (simp add: text_run_exception_def s)
  from stages_risk_level[OF s k0 k assms(2)] x assms(4)
  have "risk_level r' = generated_or_default d k_risk_level (PStr s_LOW)" by simp
  with assms(5) have "risk_level r' = PStr s_LOW"
    by (auto simp add: generated_or_default_def)
  then show ?thesis by (simp add: analyze_text_def s delivered_risk_level)
qed

lemma silent_run_delivers_low:
  "py_get (key_info (analyze_text silent_env sample_text)) k_penalty_risk PNone = Inr (PStr s_HIGH) \<and>
   text_run_exception silent_env sample_text = None \<and>
   risk_level (analyze_text silent_env sample_text) = PStr s_LOW"
  by (simp add: analyze_text_def text_run_exception_def finally_clause_def on_exception_def
      silent_env_def sample_defs run_defs key_defs new_result_def s_HIGH_def s_LOW_def s_MEDIUM_def)

section \<open>Steps in the delivered result\<close>

text \<open>
  The \<open>try\<close> block of \<open>stages\<close> is its planning part followed by the simplification.
\<close>

lemma stages_via_planned:
  "stages env t r =
     (case planned env t r of
        Inl (e, r1) \<Rightarrow> (Some e, r1)
      | Inr (plan, rag, r1) \<Rightarrow> simplification env plan rag r1)"
  unfolding stages_def planned_def simplification_def attempt_def attempt_until_def Let_def
  by (simp split: sum.splits)

lemma planned_Inr:
  assumes "planned env t r = Inr (plan, rag, r1)"
  shows "action_plan r1 = plan \<and> (\<exists>p v. plan = PDict p \<and> map_of p k_steps = Some v \<and> truthy v)"
  using assms unfolding planned_def attempt_until_def Let_def
  by (auto split: sum.splits dest!: planner_process_Inr)

lemma planned_Inl:
  assumes "planned env t r = Inl (e, r1)"
  shows "action_plan r1 = action_plan r"
  using assms unfolding planned_def attempt_until_def Let_def
  by (auto split: sum.splits)

lemma simplification_action_plan:
  assumes "simplification env plan rag r = (x, r')"
  shows "action_plan r' = action_plan r"
  using assms unfolding simplification_def attempt_def
  by (auto split: sum.splits dest!: simplifier_process_Inr simp add: copy_simplified_dict)

lemma stages_delivers_plan:
  assumes "stages env t r = (x, r')"
  shows "action_plan r' =
           (case planned env t r of Inl failure \<Rightarrow> action_plan r | Inr (plan, rag, r1) \<Rightarrow> plan)"
proof (cases "planned env t r")
  case (Inl failure)
  obtain e r1 where f: "failure = (e, r1)" by (cases failure)
  from assms have "r' = r1" by (simp add: stages_via_planned Inl f)
  with planned_Inl[OF Inl[unfolded f]] show ?thesis by (simp add: Inl)
next
  case (Inr success)
  obtain plan rag r1 where s: "success = (plan, rag, r1)" by (cases success)
  from assms have "simplification env plan rag r1 = (x, r')"
    by (simp add: stages_via_planned Inr s)
  from simplification_action_plan[OF this] planned_Inr[OF Inr[unfolded s]]
  show ?thesis by (simp add: Inr s)
qed

lemma delivered_action_plan:
  "action_plan (finally_clause env (on_exception env (x, r))) = action_plan r"
  by (cases x) (simp_all add: finally_clause_def on_exception_def)

lemma delivered_steps_easy:
  assumes "x = None \<longrightarrow> truthy (steps_easy r)"
  shows "truthy (steps_easy (finally_clause env (on_exception env (x, r))))"
  using assms by (cases x) (simp_all add: finally_clause_def on_exception_def)

lemma text_run_delivers_plan:
  "action_plan (analyze_text env text) =
     (case text_run_plan env text of Some plan \<Rightarrow> plan | None \<Rightarrow> PDict [])"
proof -
  let ?r0 = "new_result\<lparr> ocr_confidence := 100 \<rparr>"
  obtain x r' where s: "stages env text ?r0 = (x, r')" by (cases "stages env text ?r0")
  have "action_plan ?r0 = PDict []" by (simp add: new_result_def)
  with stages_delivers_plan[OF s] show ?thesis
    by (simp add: analyze_text_def s delivered_action_plan text_run_plan_def
        split: sum.splits prod.splits)
qed

lemma file_run_delivers_plan:
  "action_plan (analyze env) =
     (case file_run_plan env of Some plan \<Rightarrow> plan | None \<Rightarrow> PDict [])"
proof -
  have np: "action_plan (new_result\<lparr> ocr_confidence := c \<rparr>) = PDict []" for c
    by (simp add: new_result_def)
  have n0: "action_plan new_result = PDict []" by (simp add: new_result_def)
  show ?thesis
  proof (cases "acquired env")
    case (Inl e)
    then show ?thesis
      by (simp add: analyze_def analyze_body_def attempt_def delivered_action_plan
          file_run_plan_def n0)
  next
    case (Inr pages)
    show ?thesis
    proof (cases "page_texts pages")
      case (Inl e)
      then show ?thesis
        by (simp add: analyze_def analyze_body_def attempt_def delivered_action_plan
            file_run_plan_def n0 Inr)
    next
      case pt: (Inr full_text)
      show ?thesis
      proof (cases "strip full_text = []")
        case True
        then show ?thesis
          by (simp add: analyze_def analyze_body_def attempt_def delivered_action_plan
              file_run_plan_def Inr pt new_result_def)
      next
        case False
        let ?r0 = "new_result\<lparr> ocr_confidence := avg_confidence pages \<rparr>"
        obtain x r' where s: "stages env full_text ?r0 = (x, r')"
          by (cases "stages env full_text ?r0")
        from stages_delivers_plan[OF s] np show ?thesis
          by (simp add: analyze_def analyze_body_def attempt_def delivered_action_plan
              file_run_plan_def Inr pt False s split: sum.splits prod.splits)
      qed
    qed
  qed
qed

lemma text_run_plan_steps:
  assumes "text_run_plan env text = Some plan"
  shows "\<exists>p v. plan = PDict p \<and> map_of p k_steps = Some v \<and> truthy v"
  using assms unfolding text_run_plan_def
  by (auto split: sum.splits dest: planned_Inr)

lemma file_run_plan_steps:
  assumes "file_run_plan env = Some plan"
  shows "\<exists>p v. plan = PDict p \<and> map_of p k_steps = Some v \<and> truthy v"
  using assms unfolding file_run_plan_def
  by (auto split: sum.splits if_splits dest: planned_Inr)

lemma delivered_steps:
  "(action_plan (analyze_text env text) = PDict [] \<or>
      (\<exists>p v. action_plan (analyze_text env text) = PDict p \<and> map_of p k_steps = Some v \<and> truthy v)) \<and>
   truthy (steps_easy (analyze_text env text)) \<and>
   (action_plan (analyze env) = PDict [] \<or>
      (\<exists>p v. action_plan (analyze env) = PDict p \<and> map_of p k_steps = Some v \<and> truthy v)) \<and>
   truthy (steps_easy (analyze env)) \<and>
   (\<exists>d'. planner_process lower (PStr type_code) (PDict facts) (PDict rc) (Inr (PDict d)) =
           Inr (PDict d') \<and>
         map_of d' k_steps = Some (generated_or_default d k_steps (PList [PStr steps_fallback])))"
proof -
  have fin: "action_plan (finally_clause env (on_exception env (x, r))) = action_plan r" for x r
    by (cases x) (simp_all add: finally_clause_def on_exception_def)
  have easy: "truthy (steps_easy (finally_clause env (on_exception env (x, r))))"
    if "x = None \<longrightarrow> truthy (steps_easy r)" for x r
    using that by (cases x) (simp_all add: finally_clause_def on_exception_def)
  have st: "(action_plan r' = PDict [] \<or>
      (\<exists>p v. action_plan r' = PDict p \<and> map_of p k_steps = Some v \<and> truthy v)) \<and>
      (x = None \<longrightarrow> truthy (steps_easy r'))"
    if "stages env t r = (x, r')" and "action_plan r = PDict []" for t r x r'
    using stages_action_plan[OF that(1)] stages_steps_easy[of env t r r'] that by auto
  have np: "action_plan (new_result\<lparr> ocr_confidence := c \<rparr>) = PDict []" for c
    by (simp add: new_result_def)
  obtain x1 r1 where s1: "stages env text (new_result\<lparr> ocr_confidence := 100 \<rparr>) = (x1, r1)"
    by (cases "stages env text (new_result\<lparr> ocr_confidence := 100 \<rparr>)")
  have t: "(action_plan (analyze_text env text) = PDict [] \<or>
      (\<exists>p v. action_plan (analyze_text env text) = PDict p \<and> map_of p k_steps = Some v \<and> truthy v)) \<and>
   truthy (steps_easy (analyze_text env text))"
    using st[OF s1 np] easy[of x1 r1] by (simp add: analyze_text_def s1 fin)
  obtain x2 r2 where s2: "analyze_body env = (x2, r2)"
    by (cases "analyze_body env")
  have b: "(action_plan r2 = PDict [] \<or>
      (\<exists>p v. action_plan r2 = PDict p \<and> map_of p k_steps = Some v \<and> truthy v)) \<and>
      (x2 = None \<longrightarrow> truthy (steps_easy r2))"
    using analyze_body_cases[of env] unfolding s2
  proof (elim disjE exE)
    fix e assume "(x2, r2) = (Some e, new_result)"
    then show ?thesis by (auto simp add: new_result_def)
  next
    fix pages assume "(x2, r2) = (None, new_result\<lparr> ocr_confidence := avg_confidence pages,
                summary_one_line := PStr unreadable_msg, what_is_this := PStr unreadable_what,
                steps_easy := PList [PStr retake_msg] \<rparr>)"
    then show ?thesis by (auto simp add: new_result_def)
  next
    fix pages full_text
    assume "(x2, r2) = stages env full_text (new_result\<lparr> ocr_confidence := avg_confidence pages \<rparr>)"
    then have "stages env full_text (new_result\<lparr> ocr_confidence := avg_confidence pages \<rparr>) = (x2, r2)"
      by simp
    from st[OF this np] show ?thesis .
  qed
  have f: "(action_plan (analyze env) = PDict [] \<or>
      (\<exists>p v. action_plan (analyze env) = PDict p \<and> map_of p k_steps = Some v \<and> truthy v)) \<and>
   truthy (steps_easy (analyze env))"
    using b easy[of x2 r2] by (simp add: analyze_def s2 fin)
  from t f planner_process_steps[of lower type_code facts rc d] show ?thesis by blast
qed

text \<open>
  Claim C4, as the code has it. The action plan of the delivered result is the plan
  that the planner returned whenever the run got through the planning stage, also
  when the simplifier fails afterwards, and that plan is a dict whose \<open>steps\<close> is
  non-empty in Python's sense (truthy: a list with at least one element, or whatever
  other truthy value the generative step delivered). In every other run (an exception
  before the planner has returned; for \<open>analyze\<close> also a failed acquisition or the
  early return on an unreadable document) it is the empty dict of a fresh result.
  \<open>steps_easy\<close> is truthy in every run. This holds for \<open>analyze_text\<close> and for
  \<open>analyze\<close>. The planner, for a dict \<open>d\<close> delivered by the generative step, returns
  as \<open>steps\<close> the generated steps when \<open>d\<close> has them and they are truthy, and the
  single generic step otherwise.
\<close>

theorem steps_nonempty_after_planning:
  "action_plan (analyze_text env text) =
     (case text_run_plan env text of Some plan \<Rightarrow> plan | None \<Rightarrow> PDict []) \<and>
   (\<forall>plan. text_run_plan env text = Some plan \<longrightarrow>
      (\<exists>p v. plan = PDict p \<and> map_of p k_steps = Some v \<and> truthy v)) \<and>
   truthy (steps_easy (analyze_text env text)) \<and>
   action_plan (analyze env) =
     (case file_run_plan env of Some plan \<Rightarrow> plan | None \<Rightarrow> PDict []) \<and>
   (\<forall>plan. file_run_plan env = Some plan \<longrightarrow>
      (\<exists>p v. plan = PDict p \<and> map_of p k_steps = Some v \<and> truthy v)) \<and>
   truthy (steps_easy (analyze env)) \<and>
   (\<exists>d'. planner_process lower (PStr type_code) (PDict facts) (PDict rc) (Inr (PDict d)) =
           Inr (PDict d') \<and>
         map_of d' k_steps = Some (generated_or_default d k_steps (PList [PStr steps_fallback])))"
proof -
  have "truthy (steps_easy (analyze_text env text))" "truthy (steps_easy (analyze env))"
    using delivered_steps[of env "text" lower type_code facts rc d] by blast+
  moreover have "\<forall>plan. text_run_plan env text = Some plan \<longrightarrow>
      (\<exists>p v. plan = PDict p \<and> map_of p k_steps = Some v \<and> truthy v)"
    using text_run_plan_steps by blast
  moreover have "\<forall>plan. file_run_plan env = Some plan \<longrightarrow>
      (\<exists>p v. plan = PDict p \<and> map_of p k_steps = Some v \<and> truthy v)"
    using file_run_plan_steps by blast
  ultimately show ?thesis
    using text_run_delivers_plan[of env "text"] file_run_delivers_plan[of env]
      planner_process_steps[of lower type_code facts rc d]
    by blast
qed

text \<open>
  An instance: in the run whose simplifier raises, the planner has returned the sample
  plan, and both entry points deliver it although the run failed; in the run whose
  planner raises, the action plan is the empty dict; and a planner whose generative
  step answers with an empty dict returns the generic step.
\<close>

theorem steps_nonempty_after_planning_witness:
  "text_run_plan unsimplified_env sample_text = Some sample_plan \<and>
   file_run_plan unsimplified_env = Some sample_plan \<and>
   text_run_exception unsimplified_env sample_text = Some (Raised (asc ''timeout'')) \<and>
   action_plan (analyze_text unsimplified_env sample_text) = sample_plan \<and>
   action_plan (analyze unsimplified_env) = sample_plan \<and>
   (\<exists>p v. sample_plan = PDict p \<and> map_of p k_steps = Some v \<and> truthy v) \<and>
   truthy (steps_easy (analyze_text unsimplified_env sample_text)) \<and>
   text_run_plan failing_env sample_text = None \<and>
   action_plan (analyze_text failing_env sample_text) = PDict [] \<and>
   (\<exists>d'. planner_process (\<lambda>s. s) (PStr s_gojiseo) (PDict sample_facts) (PDict []) (Inr (PDict [])) =
           Inr (PDict d') \<and>
         map_of d' k_steps = Some (PList [PStr steps_fallback]))"
proof -
  have u: "text_run_plan unsimplified_env sample_text = Some sample_plan"
    "file_run_plan unsimplified_env = Some sample_plan"
    "text_run_exception unsimplified_env sample_text = Some (Raised (asc ''timeout''))"
    by (simp_all add: text_run_plan_def file_run_plan_def text_run_exception_def planned_def
      attempt_until_def page_texts_def strip_def is_space_def unsimplified_env_def sample_plan_def
      sample_defs run_defs key_defs new_result_def s_chenap_def s_gojiseo_def
      s_HIGH_def s_LOW_def s_MEDIUM_def)
  have f: "text_run_plan failing_env sample_text = None"
    by (simp add: text_run_plan_def planned_def attempt_until_def
      sample_defs run_defs key_defs new_result_def s_HIGH_def s_LOW_def s_MEDIUM_def)
  have g: "generated_or_default [] k_steps (PList [PStr steps_fallback]) =
      PList [PStr steps_fallback]"
    by (simp add: generated_or_default_def)
  from steps_nonempty_after_planning
         [of unsimplified_env sample_text "\<lambda>s. s" s_gojiseo sample_facts "[]" "[]"]
  have a: "action_plan (analyze_text unsimplified_env sample_text) = sample_plan"
       "action_plan (analyze unsimplified_env) = sample_plan"
       "\<exists>p v. sample_plan = PDict p \<and> map_of p k_steps = Some v \<and> truthy v"
       "truthy (steps_easy (analyze_text unsimplified_env sample_text))"
       "\<exists>d'. planner_process (\<lambda>s. s) (PStr s_gojiseo) (PDict sample_facts) (PDict [])
                (Inr (PDict [])) = Inr (PDict d') \<and>
             map_of d' k_steps = Some (PList [PStr steps_fallback])"
    by (simp_all add: u g)
  from steps_nonempty_after_planning
         [of failing_env sample_text "\<lambda>s. s" s_gojiseo sample_facts "[]" "[]"]
  have b: "action_plan (analyze_text failing_env sample_text) = PDict []"
    by (simp add: f)
  from u f a b show ?thesis by blast
qed

text \<open>
  Claim C4, as stated, fails: the run on a page of white space returns early, and the
  action plan of its result is the empty dict, which has no \<open>steps\<close>.
\<close>

theorem no_steps_on_unreadable_document:
  "action_plan (analyze blank_env) = PDict [] \<and>
   py_in k_steps (action_plan (analyze blank_env)) = Inr False"
  by (simp add: analyze_def analyze_body_def attempt_def page_texts_def strip_def is_space_def
      finally_clause_def on_exception_def blank_env_def sample_env_def new_result_def py_in_def)

section \<open>Failure and early exit\<close>

text \<open>
  Claim C5. \<open>analyze\<close> and \<open>analyze_text\<close> are total: whatever happens inside the
  \<open>try\<close> block, they return a result. When an exception \<open>e\<close> leaves the block, the
  result has the fixed analysis-failed summary and the single retry step; this is so in
  particular when the generative call of the classifier, of the extractor, of the
  planner or of the simplifier, or the retrieval stage, raises. On every path the
  elapsed time is recorded in \<open>processing_time_ms\<close>.
\<close>

theorem failure_result_on_exception:
  "(text_run_exception env text = Some e \<longrightarrow>
      summary_one_line (analyze_text env text) = PStr failed_msg \<and>
      steps_easy (analyze_text env text) = PList [PStr retry_msg]) \<and>
   (file_run_exception env = Some e \<longrightarrow>
      summary_one_line (analyze env) = PStr failed_msg \<and>
      steps_easy (analyze env) = PList [PStr retry_msg]) \<and>
   (isl (llm_classify env) \<or> isl (llm_extract env) \<or> isl (rag_outcome env) \<or>
    isl (llm_plan env) \<or> isl (llm_simplify env) \<longrightarrow>
      summary_one_line (analyze_text env text) = PStr failed_msg \<and>
      steps_easy (analyze_text env text) = PList [PStr retry_msg]) \<and>
   processing_time_ms (analyze_text env text) = elapsed_ms env \<and>
   processing_time_ms (analyze env) = elapsed_ms env"
proof -
  have on_text: "summary_one_line (analyze_text env text) = PStr failed_msg \<and>
        steps_easy (analyze_text env text) = PList [PStr retry_msg]"
    if "text_run_exception env text = Some e" for e
  proof -
    show ?thesis
      using that on_exception_failed[of "stages env text (new_result\<lparr> ocr_confidence := 100 \<rparr>)" e env]
      by (simp add: analyze_text_def text_run_exception_def finally_clause_def)
  qed
  moreover have "summary_one_line (analyze env) = PStr failed_msg \<and>
        steps_easy (analyze env) = PList [PStr retry_msg]"
    if "file_run_exception env = Some e"
  proof -
    show ?thesis
      using that on_exception_failed[of "analyze_body env" e env]
      by (simp add: analyze_def file_run_exception_def finally_clause_def)
  qed
  moreover have "summary_one_line (analyze_text env text) = PStr failed_msg \<and>
        steps_easy (analyze_text env text) = PList [PStr retry_msg]"
    if "isl (llm_classify env) \<or> isl (llm_extract env) \<or> isl (rag_outcome env) \<or>
        isl (llm_plan env) \<or> isl (llm_simplify env)"
  proof -
    from raising_call_leaves_try_block[OF that]
    obtain e' where "text_run_exception env text = Some e'" by blast
    then show ?thesis by (rule on_text)
  qed
  moreover have "processing_time_ms (analyze_text env text) = elapsed_ms env"
    by (simp add: analyze_text_def finally_clause_def)
  moreover have "processing_time_ms (analyze env) = elapsed_ms env"
    by (simp add: analyze_def finally_clause_def)
  ultimately show ?thesis using on_text[of e] by blast
qed

text \<open>An instance: the run in which the planner's generative call raises.\<close>

theorem failure_result_on_exception_witness:
  "isl (llm_plan failing_env) \<and>
   text_run_exception failing_env sample_text = Some (Raised (asc ''timeout'')) \<and>
   file_run_exception failing_env = Some (Raised (asc ''timeout'')) \<and>
   summary_one_line (analyze_text failing_env sample_text) = PStr failed_msg \<and>
   steps_easy (analyze_text failing_env sample_text) = PList [PStr retry_msg] \<and>
   summary_one_line (analyze failing_env) = PStr failed_msg \<and>
   steps_easy (analyze failing_env) = PList [PStr retry_msg] \<and>
   processing_time_ms (analyze_text failing_env sample_text) = 2500 \<and>
   processing_time_ms (analyze failing_env) = 2500"
proof -
  have i: "isl (llm_plan failing_env)"
    by (simp add: failing_env_def)
  from failure_result_on_exception [of failing_env sample_text "Raised (asc ''timeout'')"] i
  show ?thesis by (simp add: failing_run_stages)
qed

text \<open>
  Claim C6. When the combined text of the pages is empty or consists of white space
  only (\<open>strip()\<close> leaves nothing), \<open>analyze\<close> returns the fresh result with the OCR
  confidence, the fixed could-not-read summary, its explanation, the single
  retake-the-photo step and the elapsed time. No later stage contributes: the result
  does not depend on any generative or retrieval outcome.
\<close>

theorem unreadable_document_short_circuit:
  assumes "acquired env = Inr pages" and "page_texts pages = Inr full_text"
    and "strip full_text = []"
  shows "analyze env =
           new_result\<lparr> ocr_confidence := avg_confidence pages,
                        summary_one_line := PStr unreadable_msg,
                        what_is_this := PStr unreadable_what,
                        steps_easy := PList [PStr retake_msg],
                        processing_time_ms := elapsed_ms env \<rparr>"
  using assms
  by (simp add: analyze_def analyze_body_def attempt_def on_exception_def finally_clause_def)

text \<open>An instance: the run on one page holding a blank and a newline.\<close>

theorem unreadable_document_short_circuit_witness:
  "acquired blank_env = Inr [(Some [32, 10], 95)] \<and>
   page_texts [(Some [32, 10], 95)] = Inr [32, 10] \<and>
   strip [32, 10] = [] \<and>
   summary_one_line (analyze blank_env) = PStr unreadable_msg \<and>
   steps_easy (analyze blank_env) = PList [PStr retake_msg] \<and>
   ocr_confidence (analyze blank_env) = 95 \<and>
   processing_time_ms (analyze blank_env) = 2500"
proof -
  have a: "acquired blank_env = Inr [(Some [32, 10], 95)]"
    by (simp add: blank_env_def sample_env_def)
  have p: "page_texts [(Some [32, 10], 95::real)] = Inr [32, 10]"
    by (simp add: page_texts_def)
  have s: "strip [32, 10] = []"
    by (simp add: strip_def is_space_def)
  have t: "elapsed_ms blank_env = 2500"
    by (simp add: elapsed_ms_def blank_env_def sample_env_def py_int_def)
  show ?thesis
    using unreadable_document_short_circuit [OF a p s] a p s t by (simp add: new_result_def avg_confidence_def)
qed

section \<open>The matcher against the patterns' meaning\<close>

lemma body_at_length: "body_at dg body s \<Longrightarrow> length body \<le> length s"
  by (induction dg body s rule: body_at.induct) auto

lemma body_at_append: "body_at dg body s \<Longrightarrow> body_at dg body (s @ t)"
  by (induction dg body s rule: body_at.induct) auto

lemma body_at_take: "body_at dg body s \<Longrightarrow> body_at dg body (take (length body) s)"
  by (induction dg body s rule: body_at.induct) auto

lemma body_at_chars:
  "body_at dg body s \<Longrightarrow> \<forall>c \<in> set (take (length body) s). \<exists>cls \<in> set body. cmatch dg cls c"
  by (induction dg body s rule: body_at.induct) auto

lemma body_run_length: "body_run dg body n s \<Longrightarrow> n * length body \<le> length s"
proof (induction n arbitrary: s)
  case 0 then show ?case by simp
next
  case (Suc n)
  then have a: "body_at dg body s" and b: "body_run dg body n (drop (length body) s)" by auto
  have "length body \<le> length s" using a by (rule body_at_length)
  moreover have "n * length body \<le> length (drop (length body) s)" using b by (rule Suc.IH)
  ultimately show ?case by simp
qed

lemma body_run_append: "body_run dg body n s \<Longrightarrow> body_run dg body n (s @ t)"
proof (induction n arbitrary: s)
  case 0 then show ?case by simp
next
  case (Suc n)
  then have a: "body_at dg body s" and b: "body_run dg body n (drop (length body) s)" by auto
  have "length body \<le> length s" using a by (rule body_at_length)
  then have "drop (length body) (s @ t) = drop (length body) s @ t" by simp
  with Suc.IH[OF b] a show ?case by (simp add: body_at_append)
qed

lemma body_run_mono: "body_run dg body n s \<Longrightarrow> m \<le> n \<Longrightarrow> body_run dg body m s"
proof (induction n arbitrary: s m)
  case 0 then show ?case by simp
next
  case (Suc n)
  show ?case
  proof (cases m)
    case 0 then show ?thesis by simp
  next
    case (Suc m')
    with Suc.prems Suc.IH[of "drop (length body) s" m'] show ?thesis by auto
  qed
qed

lemma body_run_take:
  "body_run dg body n s \<Longrightarrow> body_run dg body n (take (n * length body) s)"
proof (induction n arbitrary: s)
  case 0 then show ?case by simp
next
  case (Suc n)
  then have a: "body_at dg body s" and b: "body_run dg body n (drop (length body) s)" by auto
  have l: "length body \<le> length s" using a by (rule body_at_length)
  have "body_at dg body (take (length body) s)" using a by (rule body_at_take)
  then have "body_at dg body (take (length body) s @ take (n * length body) (drop (length body) s))"
    by (rule body_at_append)
  moreover have "take (Suc n * length body) s =
      take (length body) s @ take (n * length body) (drop (length body) s)"
    by (simp add: take_add)
  moreover have "drop (length body) (take (Suc n * length body) s) =
      take (n * length body) (drop (length body) s)"
    by (simp add: drop_take)
  ultimately show ?case using Suc.IH[OF b] by simp
qed

lemma body_run_chars:
  "body_run dg body n s \<Longrightarrow> \<forall>c \<in> set (take (n * length body) s). \<exists>cls \<in> set body. cmatch dg cls c"
proof (induction n arbitrary: s)
  case 0 then show ?case by simp
next
  case (Suc n)
  then have a: "body_at dg body s" and b: "body_run dg body n (drop (length body) s)" by auto
  have "take (Suc n * length body) s =
      take (length body) s @ take (n * length body) (drop (length body) s)"
    by (simp add: take_add)
  then show ?case using body_at_chars[OF a] Suc.IH[OF b] by auto
qed

lemma greedy_count_le: "greedy_count dg body cap s \<le> cap"
  by (induction dg body cap s rule: greedy_count.induct) auto

lemma greedy_count_run: "body_run dg body (greedy_count dg body cap s) s"
  by (induction dg body cap s rule: greedy_count.induct) auto

lemma greedy_count_max:
  "body \<noteq> [] \<Longrightarrow> body_run dg body m s \<Longrightarrow> m \<le> cap \<Longrightarrow> m \<le> greedy_count dg body cap s"
proof (induction dg body cap s arbitrary: m rule: greedy_count.induct)
  case (1 dg body s)
  then show ?case by simp
next
  case (2 dg body cap s)
  show ?case
  proof (cases m)
    case 0 then show ?thesis by simp
  next
    case (Suc m')
    with 2 show ?thesis by auto
  qed
qed

lemma backtrack_complete:
  "lo \<le> m \<Longrightarrow> m \<le> n \<Longrightarrow> k (drop (m * len) s) \<noteq> None \<Longrightarrow> backtrack k len lo n s \<noteq> None"
proof (induction n)
  case 0
  then show ?case by (auto split: option.splits)
next
  case (Suc n)
  show ?case
  proof (cases "m = Suc n")
    case True
    with Suc.prems show ?thesis by (auto split: option.splits)
  next
    case False
    with Suc.prems have "m \<le> n" by simp
    with Suc show ?thesis by (auto split: option.splits)
  qed
qed

lemma backtrack_sound:
  "backtrack k len lo n s = Some ls \<Longrightarrow>
     \<exists>m ls'. lo \<le> m \<and> m \<le> n \<and> ls = m * len # ls' \<and> k (drop (m * len) s) = Some ls'"
proof (induction n)
  case 0
  then show ?case by (auto split: option.splits if_splits)
next
  case (Suc n)
  show ?case
  proof (cases "k (drop (Suc n * len) s)")
    case None
    with Suc.prems have "backtrack k len lo n s = Some ls" by (auto split: if_splits)
    from Suc.IH[OF this] obtain m ls' where
      "lo \<le> m" "m \<le> n" "ls = m * len # ls'" "k (drop (m * len) s) = Some ls'" by blast
    then have "lo \<le> m \<and> m \<le> Suc n \<and> ls = m * len # ls' \<and> k (drop (m * len) s) = Some ls'"
      by simp
    then show ?thesis by blast
  next
    case (Some ls')
    with Suc.prems have "ls = Suc n * len # ls'" "lo \<le> Suc n" by (auto split: if_splits)
    with Some show ?thesis by blast
  qed
qed

lemma greedy_count_empty_body: "greedy_count dg [] cap s = 0"
  by (cases cap) simp_all

lemma le_mult_length: "body \<noteq> [] \<Longrightarrow> n \<le> n * length body"
  by (cases body) simp_all

lemma list_ex_upt: "list_ex P [0..<Suc N] = (\<exists>n\<le>N. P n)"
  unfolding list_ex_iff by (auto simp del: upt_Suc simp add: less_Suc_eq_le)

lemma match_seq_sound:
  "match_seq dg items s = Some ls \<Longrightarrow>
     sum_list ls \<le> length s \<and> full_match dg items (take (sum_list ls) s)"
proof (induction items arbitrary: s ls)
  case Nil
  then show ?case by simp
next
  case (Cons it rest)
  obtain body lo hi where it: "it = Rep body lo hi" by (cases it)
  let ?len = "length body"
  let ?g = "greedy_count dg body (rep_cap hi s) s"
  from Cons.prems have "backtrack (match_seq dg rest) ?len lo ?g s = Some ls"
    by (simp add: it)
  from backtrack_sound[OF this] obtain m ls' where
    m: "lo \<le> m" "m \<le> ?g" and ls: "ls = m * ?len # ls'"
    and r: "match_seq dg rest (drop (m * ?len) s) = Some ls'" by blast
  from Cons.IH[OF r] have
    l': "sum_list ls' \<le> length (drop (m * ?len) s)" and
    f': "full_match dg rest (take (sum_list ls') (drop (m * ?len) s))" by auto
  have run: "body_run dg body m s"
    using greedy_count_run body_run_mono m(2) by blast
  then have ml: "m * ?len \<le> length s" by (rule body_run_length)
  let ?t = "take (sum_list ls) s"
  have total: "sum_list ls \<le> length s" using l' ml by (simp add: ls)
  have t: "?t = take (m * ?len) s @ take (sum_list ls') (drop (m * ?len) s)"
    by (simp add: ls take_add)
  have lt: "length ?t = m * ?len + sum_list ls'" using total by (simp add: ls)
  have "m = 0 \<or> body \<noteq> []"
  proof (cases "body = []")
    case True
    then have "?g = 0" by (simp add: greedy_count_empty_body)
    with m(2) show ?thesis by simp
  qed simp
  then have "m \<le> m * ?len" using le_mult_length[of body m] by auto
  then have b1: "m \<le> length ?t" unfolding lt by linarith
  have b2: "(case hi of Some h \<Rightarrow> m \<le> h | None \<Rightarrow> True)"
    using m(2) greedy_count_le[of dg body "rep_cap hi s" s]
    by (auto simp add: rep_cap_def split: option.splits)
  have b3: "body_run dg body m ?t"
    unfolding t using body_run_take[OF run] by (rule body_run_append)
  have "drop (m * ?len) ?t = take (sum_list ls') (drop (m * ?len) s)"
    unfolding t using ml by simp
  then have b4: "full_match dg rest (drop (m * ?len) ?t)" using f' by simp
  have "full_match dg (it # rest) ?t"
    unfolding it full_match.simps list_ex_upt using m(1) b1 b2 b3 b4 by blast
  with total show ?case by simp
qed

lemma match_seq_complete:
  "nonempty_bodies items \<Longrightarrow> full_match dg items p \<Longrightarrow> match_seq dg items (p @ post) \<noteq> None"
proof (induction items arbitrary: p)
  case Nil
  then show ?case by simp
next
  case (Cons it rest)
  obtain body lo hi where it: "it = Rep body lo hi" by (cases it)
  let ?len = "length body"
  from Cons.prems(1) have ne: "body \<noteq> []" and wf: "nonempty_bodies rest" by (auto simp add: it)
  from Cons.prems(2) obtain n where n: "n \<le> length p" "lo \<le> n"
    "(case hi of Some h \<Rightarrow> n \<le> h | None \<Rightarrow> True)" "body_run dg body n p"
    "full_match dg rest (drop (n * ?len) p)"
    unfolding it full_match.simps list_ex_upt by blast
  have run: "body_run dg body n (p @ post)" using n(4) by (rule body_run_append)
  have cap: "n \<le> rep_cap hi (p @ post)"
    using n(1) n(3) by (auto simp add: rep_cap_def split: option.splits)
  have g: "n \<le> greedy_count dg body (rep_cap hi (p @ post)) (p @ post)"
    using ne run cap by (rule greedy_count_max)
  have "n * ?len \<le> length p" using n(4) by (rule body_run_length)
  then have d: "drop (n * ?len) (p @ post) = drop (n * ?len) p @ post" by simp
  have "match_seq dg rest (drop (n * ?len) (p @ post)) \<noteq> None"
    unfolding d using wf n(5) by (rule Cons.IH)
  with n(2) g have
    "backtrack (match_seq dg rest) ?len lo
       (greedy_count dg body (rep_cap hi (p @ post)) (p @ post)) (p @ post) \<noteq> None"
    by (rule backtrack_complete)
  then show ?case by (simp add: it)
qed

lemma full_match_chars:
  "full_match dg items s \<Longrightarrow>
     \<forall>c \<in> set s. \<exists>it \<in> set items. case it of Rep body lo hi \<Rightarrow> \<exists>cls \<in> set body. cmatch dg cls c"
proof (induction items arbitrary: s)
  case Nil
  then show ?case by simp
next
  case (Cons it rest)
  obtain body lo hi where it: "it = Rep body lo hi" by (cases it)
  let ?len = "length body"
  from Cons.prems obtain n where n: "body_run dg body n s"
    "full_match dg rest (drop (n * ?len) s)"
    unfolding it full_match.simps list_ex_upt by blast
  have "set s = set (take (n * ?len) s) \<union> set (drop (n * ?len) s)"
    by (metis append_take_drop_id set_append)
  then show ?case
    using body_run_chars[OF n(1)] Cons.IH[OF n(2)] by (auto simp add: it)
qed

lemma full_match_snoc_single:
  "nonempty_bodies items \<Longrightarrow> full_match dg (items @ [single (Is (Lit w))]) s \<Longrightarrow>
     \<exists>s1. s = s1 @ [w] \<and> full_match dg items s1"
proof (induction items arbitrary: s)
  case Nil
  then obtain n where "n \<le> 1" "1 \<le> n" "body_run dg [Is (Lit w)] n s"
    "drop (n * 1) s = []"
    by (auto simp del: upt_Suc simp add: single_def list_ex_upt)
  then have "body_run dg [Is (Lit w)] (Suc 0) s" "drop 1 s = []" by auto
  then have "s = [w]" by (cases s) auto
  then show ?case by simp
next
  case (Cons it rest)
  obtain body lo hi where it: "it = Rep body lo hi" by (cases it)
  let ?len = "length body"
  from Cons.prems(1) have ne: "body \<noteq> []" and wf: "nonempty_bodies rest" by (auto simp add: it)
  from Cons.prems(2) obtain n where n: "lo \<le> n"
    "(case hi of Some h \<Rightarrow> n \<le> h | None \<Rightarrow> True)" "body_run dg body n s"
    "full_match dg (rest @ [single (Is (Lit w))]) (drop (n * ?len) s)"
    unfolding it by (auto simp del: upt_Suc simp add: list_ex_upt)
  from Cons.IH[OF wf n(4)] obtain t1 where t1: "drop (n * ?len) s = t1 @ [w]"
    "full_match dg rest t1" by blast
  let ?s1 = "take (n * ?len) s @ t1"
  have ml: "n * ?len \<le> length s" using n(3) by (rule body_run_length)
  have s: "s = ?s1 @ [w]" using t1(1) by (metis append.assoc append_take_drop_id)
  have "n \<le> n * ?len" using ne by (rule le_mult_length)
  moreover have "length ?s1 = n * ?len + length t1" using ml by simp
  ultimately have b1: "n \<le> length ?s1" by linarith
  have b3: "body_run dg body n ?s1"
    using body_run_take[OF n(3)] by (rule body_run_append)
  have b4: "full_match dg rest (drop (n * ?len) ?s1)" using t1(2) ml by simp
  have "full_match dg (it # rest) ?s1"
    unfolding it full_match.simps list_ex_upt using n(1) n(2) b1 b3 b4 by blast
  with s show ?case by blast
qed

lemma number_won_shape:
  assumes "\<not> dg c_won" and "full_match dg number_won s"
  shows "\<exists>s1. s = s1 @ [c_won] \<and> c_won \<notin> set s1"
proof -
  let ?front = "[digits_1_3, comma_groups, many (Is Space)]"
  have nw: "number_won = ?front @ [single (Is (Lit c_won))]"
    by (simp add: number_won_def)
  have wf: "nonempty_bodies ?front"
    by (simp add: digits_1_3_def comma_groups_def many_def between_def)
  from full_match_snoc_single[OF wf assms(2)[unfolded nw]]
  obtain s1 where s1: "s = s1 @ [c_won]" "full_match dg ?front s1" by blast
  have "\<forall>c \<in> set s1. dg c \<or> c = 44 \<or> is_space c"
    using full_match_chars[OF s1(2)]
    by (auto simp add: digits_1_3_def comma_groups_def many_def between_def)
  moreover have "\<not> is_space c_won" "c_won \<noteq> 44"
    by (simp_all add: is_space_def c_won_def)
  ultimately have "c_won \<notin> set s1" using assms(1) by blast
  with s1(1) show ?thesis by blast
qed

section \<open>Scanning for matches\<close>

lemma is_substr_iff: "is_substr xs ys = (\<exists>ps ss. ys = ps @ xs @ ss)"
proof (induction ys)
  case Nil
  then show ?case by simp
next
  case (Cons y ys)
  show ?case
  proof
    assume "is_substr xs (y # ys)"
    then consider "prefix xs (y # ys)" | "is_substr xs ys" by auto
    then show "\<exists>ps ss. y # ys = ps @ xs @ ss"
    proof cases
      case 1
      then obtain ss where "y # ys = xs @ ss" by (auto simp add: prefix_def)
      then have "y # ys = [] @ xs @ ss" by simp
      then show ?thesis by blast
    next
      case 2
      with Cons.IH obtain ps ss where "ys = ps @ xs @ ss" by blast
      then have "y # ys = (y # ps) @ xs @ ss" by simp
      then show ?thesis by blast
    qed
  next
    assume "\<exists>ps ss. y # ys = ps @ xs @ ss"
    then obtain ps ss where e: "y # ys = ps @ xs @ ss" by blast
    show "is_substr xs (y # ys)"
    proof (cases ps)
      case Nil
      with e have "prefix xs (y # ys)" by (simp add: prefix_def)
      then show ?thesis by simp
    next
      case (Cons p ps')
      with e have "ys = ps' @ xs @ ss" by simp
      with Cons.IH have "is_substr xs ys" by blast
      then show ?thesis by simp
    qed
  qed
qed

lemma concat_split_parts: "concat (split_parts ls s) = take (sum_list ls) s"
  by (induction ls arbitrary: s) (simp_all add: take_add)

lemma takeWhile_upto:
  assumes "w \<notin> set xs"
  shows "takeWhile (\<lambda>c. c \<noteq> w) (xs @ w # ys) = xs"
  using assms by (induction xs) auto

lemma set_foldl_add_unique: "set (foldl add_unique acc xs) = set acc \<union> set xs"
  by (induction xs arbitrary: acc) (auto simp add: add_unique_def)

lemma finditer_covers:
  assumes shape: "\<And>m. full_match dg p m \<Longrightarrow> \<exists>m1. m = m1 @ [w] \<and> w \<notin> set m1"
    and wf: "nonempty_bodies p"
    and whole: "full_match dg p s"
  shows "\<exists>parts \<in> set (finditer dg p (pre @ s @ post)). concat parts = take (length (concat parts) - length s) (concat parts) @ s"
proof (induction "length pre" arbitrary: pre rule: less_induct)
  case less
  let ?text = "pre @ s @ post"
  obtain s1 where s1: "s = s1 @ [w]" "w \<notin> set s1" using shape[OF whole] by blast
  then obtain c cs where tc: "?text = c # cs" by (cases ?text) auto
  show ?case
  proof (cases "match_seq dg p ?text")
    case None
    have "pre \<noteq> []"
    proof
      assume "pre = []"
      then have "match_seq dg p ?text \<noteq> None" using match_seq_complete[OF wf whole] by simp
      with None show False by simp
    qed
    then obtain pre' where pre: "pre = c # pre'" using tc by (cases pre) auto
    then have cs: "cs = pre' @ s @ post" using tc by simp
    have "finditer dg p ?text = finditer dg p cs" using None unfolding tc by simp
    moreover have "length pre' < length pre" using pre by simp
    ultimately show ?thesis using less[of pre'] cs by simp
  next
    case (Some ls)
    let ?n = "sum_list ls"
    from match_seq_sound[OF Some] have n: "?n \<le> length ?text"
      and fm: "full_match dg p (take ?n ?text)" by auto
    from shape[OF fm] obtain m1 where m1: "take ?n ?text = m1 @ [w]" "w \<notin> set m1" by blast
    have ln: "?n = Suc (length m1)" using m1(1) n
      by (metis length_append_singleton length_take min.absorb2)
    have fi: "finditer dg p ?text = split_parts ls ?text # finditer dg p (drop ?n ?text)"
      using Some ln unfolding tc by simp
    show ?thesis
    proof (cases "?n \<le> length pre")
      case True
      then have d: "drop ?n ?text = drop ?n pre @ s @ post" by simp
      have "length (drop ?n pre) < length pre" using True ln by simp
      from less[OF this] show ?thesis unfolding fi d by auto
    next
      case False
      then have lp: "length pre \<le> length m1" using ln by simp
      have tx: "?text = m1 @ w # drop ?n ?text"
        using m1(1) by (metis append.assoc append_Cons append_Nil append_take_drop_id)
      have "take (length pre) ?text = take (length pre) m1" using lp by (subst tx) simp
      then have "pre = take (length pre) m1" by simp
      then have "set pre \<subseteq> set m1" by (metis set_take_subset)
      with m1(2) have "w \<notin> set (pre @ s1)" using s1(2) by auto
      from takeWhile_upto[OF this, of post] have "takeWhile (\<lambda>c. c \<noteq> w) ?text = pre @ s1"
        by (simp add: s1(1))
      moreover from takeWhile_upto[OF m1(2), of "drop ?n ?text"] tx
      have "takeWhile (\<lambda>c. c \<noteq> w) ?text = m1" by simp
      ultimately have "m1 = pre @ s1" by simp
      then have "concat (split_parts ls ?text) = pre @ s"
        using m1(1) by (simp add: concat_split_parts s1(1))
      then show ?thesis unfolding fi by simp
    qed
  qed
qed

lemma amount_candidate_covers:
  assumes "\<not> dg c_won" and "full_match dg number_won s" and "is_substr s text"
  shows "\<exists>c \<in> set (amounts (extract_with_rules dg text)). is_substr s c"
proof -
  from assms(3) obtain pre post where decomp: "text = pre @ s @ post"
    by (auto simp add: is_substr_iff)
  have wf: "nonempty_bodies number_won"
    by (simp add: number_won_def digits_1_3_def comma_groups_def many_def single_def between_def)
  have sh: "\<exists>m1. m = m1 @ [c_won] \<and> c_won \<notin> set m1" if "full_match dg number_won m" for m
    using assms(1) that by (rule number_won_shape)
  from finditer_covers[of dg number_won c_won, OF sh wf assms(2), of pre post]
  obtain parts ps where parts: "parts \<in> set (finditer dg number_won text)" "concat parts = ps @ s"
    unfolding decomp by blast
  have "concat parts \<in> set (all_group0 dg amount_patterns text)"
    using parts(1) by (auto simp add: all_group0_def amount_patterns_def)
  then have "concat parts \<in> set (amounts (extract_with_rules dg text))"
    by (simp add: extract_with_rules_def set_foldl_add_unique)
  moreover have "is_substr s (concat parts)"
    unfolding parts(2) is_substr_iff by (metis append_Nil2)
  ultimately show ?thesis by blast
qed

text \<open>
  The other amount patterns. The labelled ones end with won as the first does. The
  won-sign pattern begins with its distinctive character instead, and the match found
  at a won sign is the longest one there: no item gives anything back.
\<close>

lemma greedy_count_eq:
  "body \<noteq> [] \<Longrightarrow> body_run dg body n s \<Longrightarrow> \<not> body_at dg body (drop (n * length body) s) \<Longrightarrow>
     n \<le> cap \<Longrightarrow> greedy_count dg body cap s = n"
proof (induction n arbitrary: cap s)
  case 0
  then show ?case by (cases cap) simp_all
next
  case (Suc n)
  then obtain cap' where cap: "cap = Suc cap'" "n \<le> cap'" by (cases cap) auto
  from Suc.prems have a: "body_at dg body s" and b: "body_run dg body n (drop (length body) s)"
    by auto
  have "drop (n * length body) (drop (length body) s) = drop (Suc n * length body) s"
    by (simp add: add.commute)
  with Suc.prems(3) have "\<not> body_at dg body (drop (n * length body) (drop (length body) s))"
    by simp
  from Suc.IH[OF Suc.prems(1) b this cap(2)] a Suc.prems(1) show ?case
    by (simp add: cap(1))
qed

lemma backtrack_top:
  "lo \<le> n \<Longrightarrow> k (drop (n * len) s) = Some ls' \<Longrightarrow> backtrack k len lo n s = Some (n * len # ls')"
  by (cases n) auto

lemma body_run_single_nth:
  "body_run dg [c] n s \<Longrightarrow> i < n \<Longrightarrow> cmatch dg c (s ! i)"
proof (induction n arbitrary: s i)
  case 0
  then show ?case by simp
next
  case (Suc n)
  then obtain x xs where s: "s = x # xs" by (cases s) auto
  with Suc.prems have "cmatch dg c x" "body_run dg [c] n xs" by auto
  with Suc.IH[of xs] Suc.prems(2) show ?case by (cases i) (auto simp add: s)
qed

lemma full_match_cons:
  "full_match dg (Rep body lo hi # rest) s =
     (\<exists>n. lo \<le> n \<and> (case hi of Some h \<Rightarrow> n \<le> h | None \<Rightarrow> True) \<and> n \<le> length s \<and>
          body_run dg body n s \<and> full_match dg rest (drop (n * length body) s))"
  unfolding full_match.simps list_ex_upt by auto

lemma full_match_consD:
  "full_match dg (Rep body lo hi # rest) s \<Longrightarrow>
     \<exists>n. lo \<le> n \<and> (case hi of Some h \<Rightarrow> n \<le> h | None \<Rightarrow> True) \<and>
          body_run dg body n s \<and> full_match dg rest (drop (n * length body) s)"
  unfolding full_match_cons by blast

lemma match_seq_cons:
  "match_seq dg (Rep body lo hi # rest) s =
     backtrack (match_seq dg rest) (length body) lo (greedy_count dg body (rep_cap hi s) s) s"
  by simp

lemma won_sign_dominates:
  assumes c: "\<not> dg 44" and sp: "\<forall>c. dg c \<longrightarrow> \<not> is_space c"
    and whole: "full_match dg won_sign_number s"
    and m: "match_seq dg won_sign_number (s @ post) = Some ls"
  shows "length s \<le> sum_list ls"
proof -
  let ?cb = "[Is (Lit 44), Is Digit, Is Digit, Is Digit]"
  let ?w = "[Is (Lit c_won_sign)]"
  let ?r4 = "[Rep ?cb 0 None]"
  let ?r3 = "Rep [Is Digit] 1 (Some 3) # ?r4"
  let ?r2 = "Rep [Is Space] 0 None # ?r3"
  have p: "won_sign_number = Rep ?w 1 (Some 1) # ?r2"
    by (simp add: won_sign_number_def single_def many_def digits_1_3_def between_def
        comma_groups_def)
  from full_match_consD[OF whole[unfolded p]] obtain n1 where
    n1: "1 \<le> n1" "n1 \<le> 1" "body_run dg ?w n1 s" "full_match dg ?r2 (drop (n1 * length ?w) s)"
    by (auto simp del: full_match.simps)
  then have n11: "n1 = 1" by simp
  define s2 where "s2 = drop 1 s"
  from n1 n11 have s: "s = c_won_sign # s2" unfolding s2_def by (cases s) auto
  from n1(4) n11 have "full_match dg ?r2 s2" by (simp add: s2_def)
  from full_match_consD[OF this] obtain k where
    k: "body_run dg [Is Space] k s2" "full_match dg ?r3 (drop (k * length [Is Space]) s2)"
    by (auto simp del: full_match.simps)
  define s3 where "s3 = drop k s2"
  from k(2) have "full_match dg ?r3 s3" by (simp add: s3_def)
  from full_match_consD[OF this] obtain d where
    d: "1 \<le> d" "d \<le> 3" "body_run dg [Is Digit] d s3"
       "full_match dg ?r4 (drop (d * length [Is Digit]) s3)"
    by (auto simp del: full_match.simps)
  define s4 where "s4 = drop d s3"
  from d(4) have "full_match dg ?r4 s4" by (simp add: s4_def)
  from full_match_consD[OF this] obtain g where
    g: "body_run dg ?cb g s4" "drop (g * length ?cb) s4 = []"
    by (auto simp del: upt_Suc)
  have kl: "k \<le> length s2" using body_run_length[OF k(1)] by simp
  have dl: "d \<le> length s3" using body_run_length[OF d(3)] by simp
  have gl: "g * 4 \<le> length s4" using body_run_length[OF g(1)] by simp
  have l4: "length s4 = g * 4" using g(2) gl by simp
  have l3: "length s3 = d + g * 4" using l4 dl by (simp add: s4_def)
  have l2: "length s2 = k + d + g * 4" using l3 kl by (simp add: s3_def)
  have ls: "length s = 1 + k + d + g * 4" using l2 by (simp add: s)
  \<comment> \<open>the last two items take what the greedy count gives\<close>
  define g3 where "g3 = greedy_count dg [Is Digit] 3 (s3 @ post)"
  define t4 where "t4 = drop g3 (s3 @ post)"
  define g4 where "g4 = greedy_count dg ?cb (length t4) t4"
  have m4: "match_seq dg ?r4 t = Some [greedy_count dg ?cb (length t) t * 4]" for t
  proof -
    have "backtrack (match_seq dg []) (length ?cb) 0 G t = Some (G * length ?cb # [])" for G
      by (rule backtrack_top) simp_all
    then show ?thesis unfolding match_seq_cons by (simp add: rep_cap_def)
  qed
  have d3: "d \<le> g3" unfolding g3_def
    using body_run_append[OF d(3)] d(2) by (intro greedy_count_max) simp_all
  have m3: "match_seq dg ?r3 (s3 @ post) = Some [g3, g4 * 4]"
    unfolding match_seq_cons
    using backtrack_top[of 1 g3 "match_seq dg ?r4" 1 "s3 @ post" "[g4 * 4]"] d3 d(1) m4[of t4]
    by (simp add: rep_cap_def g3_def g4_def t4_def)
  \<comment> \<open>the white space ends where the digits begin\<close>
  from d(1) d(3) obtain x xs where s3: "s3 = x # xs" "dg x"
    by (cases d; cases s3) auto
  have "\<not> body_at dg [Is Space] (s3 @ post)" using s3 sp by simp
  moreover have "drop (k * length [Is Space]) (s2 @ post) = s3 @ post"
    using kl by (simp add: s3_def)
  ultimately have gk: "greedy_count dg [Is Space] (length (s2 @ post)) (s2 @ post) = k"
    using body_run_append[OF k(1), of post] kl
    by (intro greedy_count_eq) simp_all
  have m2: "match_seq dg ?r2 (s2 @ post) = Some [k, g3, g4 * 4]"
    unfolding match_seq_cons
    using backtrack_top[of 0 k "match_seq dg ?r3" 1 "s2 @ post" "[g3, g4 * 4]"] m3 kl gk
    by (simp add: rep_cap_def s3_def)
  have m1: "match_seq dg won_sign_number (s @ post) = Some [1, k, g3, g4 * 4]"
    unfolding p match_seq_cons
    using backtrack_top[of 1 1 "match_seq dg ?r2" 1 "s @ post" "[k, g3, g4 * 4]"] m2
    by (simp add: rep_cap_def s)
  have "d + g * 4 \<le> g3 + g4 * 4"
  proof (cases "g3 = d")
    case True
    then have "t4 = s4 @ post" using dl by (simp add: t4_def s4_def)
    moreover have "g \<le> length (s4 @ post)" using gl by simp
    ultimately have "g \<le> g4" unfolding g4_def
      using body_run_append[OF g(1), of post] by (intro greedy_count_max) simp_all
    with True show ?thesis by simp
  next
    case False
    with d3 have lt: "d < g3" by simp
    have "g = 0"
    proof (rule ccontr)
      assume "g \<noteq> 0"
      then obtain g' where "g = Suc g'" by (cases g) auto
      with g(1) have "body_at dg ?cb s4" by simp
      then obtain ys where "s4 = 44 # ys" by (cases s4) auto
      then have "s3 ! d = 44" unfolding s4_def
        by (metis dl drop_eq_Nil hd_drop_conv_nth linorder_not_le list.distinct(1) list.sel(1))
      moreover have "d < length s3" using \<open>s4 = 44 # ys\<close> unfolding s4_def by (cases "d < length s3") auto
      ultimately have "(s3 @ post) ! d = 44" by (simp add: nth_append)
      moreover have "body_run dg [Is Digit] g3 (s3 @ post)"
        unfolding g3_def by (rule greedy_count_run)
      from body_run_single_nth[OF this lt] have "dg ((s3 @ post) ! d)" by simp
      ultimately show False using c by simp
    qed
    with d3 show ?thesis by simp
  qed
  moreover from m m1 have "ls = [1, k, g3, g4 * 4]" by simp
  ultimately show ?thesis using ls by simp
qed


lemma won_sign_number_shape:
  assumes "\<not> dg c_won_sign" and "full_match dg won_sign_number m"
  shows "\<exists>m1. m = c_won_sign # m1 \<and> c_won_sign \<notin> set m1"
proof -
  let ?rest = "[many (Is Space), digits_1_3, comma_groups]"
  have p: "won_sign_number = Rep [Is (Lit c_won_sign)] 1 (Some 1) # ?rest"
    by (simp add: won_sign_number_def single_def)
  from full_match_consD[OF assms(2)[unfolded p]] obtain n where
    n: "1 \<le> n" "n \<le> 1" "body_run dg [Is (Lit c_won_sign)] n m"
       "full_match dg ?rest (drop (n * length [Is (Lit c_won_sign)]) m)"
    by (auto simp del: full_match.simps)
  then have n1: "n = 1" by simp
  from n(3) n1 have m: "m = c_won_sign # drop 1 m" by (cases m) auto
  from n(4) n1 have "full_match dg ?rest (drop 1 m)" by simp
  from full_match_chars[OF this]
  have "\<forall>c \<in> set (drop 1 m). dg c \<or> c = 44 \<or> is_space c"
    by (auto simp add: digits_1_3_def comma_groups_def many_def between_def)
  moreover have "\<not> is_space c_won_sign" "c_won_sign \<noteq> 44"
    by (simp_all add: is_space_def c_won_sign_def)
  ultimately have "c_won_sign \<notin> set (drop 1 m)" using assms(1) by blast
  with m show ?thesis by blast
qed

lemma finditer_covers_head:
  assumes shape: "\<And>m. full_match dg p m \<Longrightarrow> \<exists>m1. m = w # m1 \<and> w \<notin> set m1"
    and wf: "nonempty_bodies p"
    and whole: "full_match dg p s"
    and longest: "\<And>ls. match_seq dg p (s @ post) = Some ls \<Longrightarrow> length s \<le> sum_list ls"
  shows "\<exists>parts \<in> set (finditer dg p (pre @ s @ post)).
           concat parts = s @ drop (length s) (concat parts)"
proof (induction "length pre" arbitrary: pre rule: less_induct)
  case less
  let ?text = "pre @ s @ post"
  obtain s1 where s1: "s = w # s1" "w \<notin> set s1" using shape[OF whole] by blast
  then obtain c cs where tc: "?text = c # cs" by (cases ?text) auto
  show ?case
  proof (cases "match_seq dg p ?text")
    case None
    have "pre \<noteq> []"
    proof
      assume "pre = []"
      then have "match_seq dg p ?text \<noteq> None" using match_seq_complete[OF wf whole] by simp
      with None show False by simp
    qed
    then obtain pre' where pre: "pre = c # pre'" using tc by (cases pre) auto
    then have cs: "cs = pre' @ s @ post" using tc by simp
    have "finditer dg p ?text = finditer dg p cs" using None unfolding tc by simp
    moreover have "length pre' < length pre" using pre by simp
    ultimately show ?thesis using less[of pre'] cs by simp
  next
    case (Some ls)
    let ?n = "sum_list ls"
    from match_seq_sound[OF Some] have n: "?n \<le> length ?text"
      and fm: "full_match dg p (take ?n ?text)" by auto
    from shape[OF fm] obtain m1 where m1: "take ?n ?text = w # m1" "w \<notin> set m1" by blast
    have ln: "?n = Suc (length m1)" using m1(1) n
      by (metis length_Cons length_take min.absorb2)
    have fi: "finditer dg p ?text = split_parts ls ?text # finditer dg p (drop ?n ?text)"
      using Some ln unfolding tc by simp
    show ?thesis
    proof (cases "pre = []")
      case True
      with Some have "length s \<le> ?n" using longest by simp
      then have "take ?n ?text = s @ take (?n - length s) post" using True by simp
      then have "concat (split_parts ls ?text) = s @ drop (length s) (concat (split_parts ls ?text))"
        by (simp add: concat_split_parts)
      then show ?thesis unfolding fi by simp
    next
      case False
      have "?n \<le> length pre"
      proof (rule ccontr)
        assume "\<not> ?n \<le> length pre"
        then have lp: "length pre < ?n" by simp
        have "(take ?n ?text) ! length pre = ?text ! length pre" using lp by (simp only: nth_take)
        also have "\<dots> = w" by (simp add: s1(1) nth_append)
        finally have "(w # m1) ! length pre = w" using m1(1) by simp
        moreover from False obtain j where j: "length pre = Suc j" by (cases pre) auto
        moreover have "j < length m1" using lp ln j by simp
        ultimately have "w \<in> set m1" by (metis nth_Cons_Suc nth_mem)
        with m1(2) show False by simp
      qed
      then have d: "drop ?n ?text = drop ?n pre @ s @ post" by simp
      have "length (drop ?n pre) < length pre" using False ln by (cases pre) auto
      from less[OF this] show ?thesis unfolding fi d by auto
    qed
  qed
qed

lemma nonempty_bodies_append:
  "nonempty_bodies (xs @ ys) = (nonempty_bodies xs \<and> nonempty_bodies ys)"
  by (induction xs rule: nonempty_bodies.induct) simp_all

lemma ends_with_shape:
  assumes wf: "nonempty_bodies front"
    and other: "\<forall>it \<in> set front. case it of Rep body lo hi \<Rightarrow> \<forall>cls \<in> set body. \<not> cmatch dg cls w"
    and whole: "full_match dg (front @ [single (Is (Lit w))]) m"
  shows "\<exists>m1. m = m1 @ [w] \<and> w \<notin> set m1"
proof -
  from full_match_snoc_single[OF wf whole]
  obtain m1 where m1: "m = m1 @ [w]" "full_match dg front m1" by blast
  have "w \<notin> set m1"
  proof
    assume "w \<in> set m1"
    with full_match_chars[OF m1(2)] obtain it where
      "it \<in> set front" "case it of Rep body lo hi \<Rightarrow> \<exists>cls \<in> set body. cmatch dg cls w"
      by blast
    with other show False by (cases it) auto
  qed
  with m1(1) show ?thesis by blast
qed

lemma labelled_amount_shape:
  assumes "\<not> dg c_won" and "p \<in> set amount_patterns" and "p \<noteq> won_sign_number"
    and "full_match dg p m"
  shows "nonempty_bodies p \<and> (\<exists>m1. m = m1 @ [c_won] \<and> c_won \<notin> set m1)"
proof -
  have sp: "\<not> is_space c_won" by (simp add: is_space_def c_won_def)
  from assms(2,3) consider
      "p = [] @ [digits_1_3, comma_groups, many (Is Space)] @ [single (Is (Lit c_won))]"
    | "p = [single (Is (Lit 44552)), many (Is Space)] @ [digits_1_3, comma_groups, many (Is Space)]
           @ [single (Is (Lit c_won))]"
    | "p = (lits [54633, 44228] @ [many colon_or_space]) @ [digits_1_3, comma_groups, many (Is Space)]
           @ [single (Is (Lit c_won))]"
    | "p = (lits [52509, 50529] @ [many colon_or_space]) @ [digits_1_3, comma_groups, many (Is Space)]
           @ [single (Is (Lit c_won))]"
    | "p = (lits [45225, 48512, 44552, 50529] @ [many colon_or_space])
           @ [digits_1_3, comma_groups, many (Is Space)] @ [single (Is (Lit c_won))]"
    by (auto simp add: amount_patterns_def number_won_def)
  then obtain label where
    p: "p = (label @ [digits_1_3, comma_groups, many (Is Space)]) @ [single (Is (Lit c_won))]"
    and wf: "nonempty_bodies (label @ [digits_1_3, comma_groups, many (Is Space)])"
    and other: "\<forall>it \<in> set (label @ [digits_1_3, comma_groups, many (Is Space)]).
        case it of Rep body lo hi \<Rightarrow> \<forall>cls \<in> set body. \<not> cmatch dg cls c_won"
  proof cases
    case 1
    show ?thesis
      by (rule that[of "[]"])
        (use 1 assms(1) sp in \<open>simp_all add: digits_1_3_def comma_groups_def many_def between_def
          c_won_def\<close>)
  next
    case 2
    show ?thesis
      by (rule that[of "[single (Is (Lit 44552)), many (Is Space)]"])
        (use 2 assms(1) sp in \<open>simp_all add: digits_1_3_def comma_groups_def many_def between_def
          single_def c_won_def\<close>)
  next
    case 3
    show ?thesis
      by (rule that[of "lits [54633, 44228] @ [many colon_or_space]"])
        (use 3 assms(1) sp in \<open>simp_all add: digits_1_3_def comma_groups_def many_def between_def
          single_def lits_def colon_or_space_def c_won_def\<close>)
  next
    case 4
    show ?thesis
      by (rule that[of "lits [52509, 50529] @ [many colon_or_space]"])
        (use 4 assms(1) sp in \<open>simp_all add: digits_1_3_def comma_groups_def many_def between_def
          single_def lits_def colon_or_space_def c_won_def\<close>)
  next
    case 5
    show ?thesis
      by (rule that[of "lits [45225, 48512, 44552, 50529] @ [many colon_or_space]"])
        (use 5 assms(1) sp in \<open>simp_all add: digits_1_3_def comma_groups_def many_def between_def
          single_def lits_def colon_or_space_def c_won_def\<close>)
  qed
  have "nonempty_bodies p" using wf unfolding p
    by (simp add: nonempty_bodies_append single_def digits_1_3_def comma_groups_def many_def
        between_def)
  moreover from ends_with_shape[OF wf other assms(4)[unfolded p]]
  have "\<exists>m1. m = m1 @ [c_won] \<and> c_won \<notin> set m1" .
  ultimately show ?thesis by blast
qed

lemma candidate_of_pattern:
  assumes "p \<in> set amount_patterns" and "parts \<in> set (finditer dg p t)"
  shows "concat parts \<in> set (amounts (extract_with_rules dg t))"
  using assms by (auto simp add: extract_with_rules_def set_foldl_add_unique all_group0_def)

lemma every_amount_pattern_covers:
  assumes "\<not> dg c_won" and "p \<in> set amount_patterns" and "full_match dg p s"
    and "is_substr s t"
    and "p = won_sign_number \<longrightarrow> \<not> dg 44 \<and> \<not> dg c_won_sign \<and> (\<forall>c. dg c \<longrightarrow> \<not> is_space c)"
  shows "\<exists>c \<in> set (amounts (extract_with_rules dg t)). is_substr s c"
proof -
  from assms(4) obtain pre post where decomp: "t = pre @ s @ post"
    by (auto simp add: is_substr_iff)
  have "\<exists>parts \<in> set (finditer dg p t). is_substr s (concat parts)"
  proof (cases "p = won_sign_number")
    case True
    with assms(5) have side: "\<not> dg 44" "\<not> dg c_won_sign" "\<forall>c. dg c \<longrightarrow> \<not> is_space c"
      by simp_all
    have wf: "nonempty_bodies won_sign_number"
      by (simp add: won_sign_number_def digits_1_3_def comma_groups_def many_def single_def
          between_def)
    have sh: "\<exists>m1. m = c_won_sign # m1 \<and> c_won_sign \<notin> set m1"
      if "full_match dg won_sign_number m" for m
      using side(2) that by (rule won_sign_number_shape)
    have whole: "full_match dg won_sign_number s" using assms(3) True by simp
    have longest: "length s \<le> sum_list ls"
      if "match_seq dg won_sign_number (s @ post) = Some ls" for ls
      using side(1) side(3) whole that by (rule won_sign_dominates)
    from finditer_covers_head[of dg won_sign_number c_won_sign s post pre, OF sh wf whole longest]
    obtain parts where parts: "parts \<in> set (finditer dg won_sign_number t)"
      "concat parts = s @ drop (length s) (concat parts)"
      unfolding decomp by blast
    have "is_substr s (concat parts)"
      unfolding is_substr_iff using parts(2) by (metis append_Nil)
    with parts(1) True show ?thesis by blast
  next
    case False
    have wf: "nonempty_bodies p"
      using labelled_amount_shape[OF assms(1) assms(2) False assms(3)] by blast
    have sh: "\<exists>m1. m = m1 @ [c_won] \<and> c_won \<notin> set m1" if "full_match dg p m" for m
      using labelled_amount_shape[OF assms(1) assms(2) False that] by blast
    from finditer_covers[of dg p c_won, OF sh wf assms(3), of pre post]
    obtain parts ps where parts: "parts \<in> set (finditer dg p t)" "concat parts = ps @ s"
      unfolding decomp by blast
    have "is_substr s (concat parts)"
      unfolding parts(2) is_substr_iff by (metis append_Nil2)
    with parts(1) show ?thesis by blast
  qed
  with candidate_of_pattern[OF assms(2)] show ?thesis by blast
qed


section \<open>The scenario of the specification\<close>

lemma greedy_count_numeral:
  "greedy_count dg body (numeral k) s =
     (if body \<noteq> [] \<and> body_at dg body s
      then Suc (greedy_count dg body (pred_numeral k) (drop (length body) s))
      else 0)"
  by (simp add: numeral_eq_Suc)

lemmas pattern_defs = single_def many_def many1_def opt_def between_def lits_def number_won_def
  won_sign_number_def c_won_sign_def
  digits_1_3_def comma_groups_def c_won_def colon_or_space_def date_sep_def digit_or_hyphen_def
  ymd_sep_def rep_cap_def greedy_count_numeral ascii_digit_def is_space_def

lemma scenario_literal:
  "scenario_text = [45225, 48512, 44552, 50529, 58, 32, 49, 53, 48, 44, 48, 48, 48, 50896, 44, 32,
     45225, 48512, 44592, 54620, 58, 32, 50, 48, 50, 53, 45, 48, 49, 45, 51, 49, 44, 32,
     47928, 51032, 58, 32, 49, 53, 55, 55, 45, 49, 48, 48, 48]"
  by (simp add: scenario_text_def asc_def c_won_def)

lemma scenario_amounts:
  "amounts (extract_with_rules ascii_digit scenario_text) =
     [ asc ''150,000'' @ [c_won],
       [45225, 48512, 44552, 50529] @ asc '': 150,000'' @ [c_won] ]"
  unfolding scenario_literal
  by (simp add: extract_with_rules_def all_group0_def add_unique_def amount_patterns_def
      pattern_defs asc_def)

lemma scenario_dates:
  "dates (extract_with_rules ascii_digit scenario_text) =
     [ asc ''2025-01-31'',
       [45225, 48512, 44592, 54620] @ asc '': 2025-01-31'',
       [44592, 54620] @ asc '': 2025-01-31'' ]"
  unfolding scenario_literal
  by (simp add: extract_with_rules_def all_group0_def add_unique_def date_patterns_def
      pattern_defs asc_def)

lemma scenario_phones:
  "phones (extract_with_rules ascii_digit scenario_text) =
     [ asc ''1577'', asc ''1000'', [47928, 51032] @ asc '': 1577-1000'' ]"
  unfolding scenario_literal
  by (simp add: extract_with_rules_def all_group0_def add_unique_def phone_patterns_def
      pattern_defs asc_def)

lemma scenario_accounts:
  "accounts (extract_with_rules ascii_digit scenario_text) = []"
  unfolding scenario_literal
  by (simp add: extract_with_rules_def all_group1_def add_unique_def account_patterns_def
      pattern_defs asc_def)

text \<open>
  Claim C3, as the code has it. On the scenario text the amount candidates contain
  \<open>"150,000"\<close> won and the date candidates contain \<open>"2025-01-31"\<close>; the phone
  candidates contain the labelled match mun-ui \<open>": 1577-1000"\<close>, of which \<open>"1577-1000"\<close> is
  a substring. In general, whenever a text contains a substring \<open>s\<close> of the
  form of the first amount pattern (one to three digits, groups of a comma and three
  digits, white space, won), the amount candidates are not empty and one of them
  contains \<open>s\<close>. The interpreter's digit table \<open>dg\<close> is arbitrary, as long as won is no
  digit. The same holds for a substring of the form of any of the six amount patterns, in
  any text; for the won-sign pattern as long as \<open>dg\<close> is like Python's table in that
  the comma and the won sign are no digits and no digit is white space.
\<close>

theorem scenario_candidates_and_amount_coverage:
  assumes "\<not> dg c_won" and "full_match dg number_won s" and "is_substr s text"
  shows "asc ''150,000'' @ [c_won] \<in> set (amounts (extract_with_rules ascii_digit scenario_text)) \<and>
         asc ''2025-01-31'' \<in> set (dates (extract_with_rules ascii_digit scenario_text)) \<and>
         [47928, 51032] @ asc '': 1577-1000''
           \<in> set (phones (extract_with_rules ascii_digit scenario_text)) \<and>
         is_substr (asc ''1577-1000'') ([47928, 51032] @ asc '': 1577-1000'') \<and>
         amounts (extract_with_rules dg text) \<noteq> [] \<and>
         (\<exists>c \<in> set (amounts (extract_with_rules dg text)). is_substr s c) \<and>
         (\<forall>p s' t. p \<in> set amount_patterns \<and> full_match dg p s' \<and> is_substr s' t \<and>
            (p = won_sign_number \<longrightarrow>
               \<not> dg 44 \<and> \<not> dg c_won_sign \<and> (\<forall>c. dg c \<longrightarrow> \<not> is_space c)) \<longrightarrow>
            (\<exists>c \<in> set (amounts (extract_with_rules dg t)). is_substr s' c))"
proof -
  have "is_substr (asc ''1577-1000'') ([47928, 51032] @ asc '': 1577-1000'')"
    by (simp add: asc_def)
  moreover obtain c where "c \<in> set (amounts (extract_with_rules dg text))" "is_substr s c"
    using amount_candidate_covers[OF assms] by blast
  moreover from this have "amounts (extract_with_rules dg text) \<noteq> []" by auto
  ultimately have scenario:
    "asc ''150,000'' @ [c_won] \<in> set (amounts (extract_with_rules ascii_digit scenario_text)) \<and>
     asc ''2025-01-31'' \<in> set (dates (extract_with_rules ascii_digit scenario_text)) \<and>
     [47928, 51032] @ asc '': 1577-1000''
       \<in> set (phones (extract_with_rules ascii_digit scenario_text)) \<and>
     is_substr (asc ''1577-1000'') ([47928, 51032] @ asc '': 1577-1000'') \<and>
     amounts (extract_with_rules dg text) \<noteq> [] \<and>
     (\<exists>c \<in> set (amounts (extract_with_rules dg text)). is_substr s c)"
    by (auto simp add: scenario_amounts scenario_dates scenario_phones)
  have "\<exists>c \<in> set (amounts (extract_with_rules dg t)). is_substr s' c"
    if "p \<in> set amount_patterns \<and> full_match dg p s' \<and> is_substr s' t \<and>
        (p = won_sign_number \<longrightarrow>
           \<not> dg 44 \<and> \<not> dg c_won_sign \<and> (\<forall>c. dg c \<longrightarrow> \<not> is_space c))" for p s' t
    using every_amount_pattern_covers[of dg p s' t] assms(1) that by blast
  with scenario show ?thesis by blast
qed

text \<open>
  An instance: the text \<open>"1,150,000"\<close> won contains \<open>"150,000"\<close> won, and its one amount
  candidate, the text itself, contains it. With the won sign \<open>S\<close>, the text \<open>"S123"\<close>
  contains \<open>"S12"\<close>, of the form of the second pattern, and a candidate contains it.
\<close>

theorem scenario_candidates_and_amount_coverage_witness:
  "\<not> ascii_digit c_won \<and>
   full_match ascii_digit number_won (asc ''150,000'' @ [c_won]) \<and>
   is_substr (asc ''150,000'' @ [c_won]) (asc ''1,150,000'' @ [c_won]) \<and>
   (\<exists>c \<in> set (amounts (extract_with_rules ascii_digit (asc ''1,150,000'' @ [c_won]))).
      is_substr (asc ''150,000'' @ [c_won]) c) \<and>
   won_sign_number \<in> set amount_patterns \<and>
   full_match ascii_digit won_sign_number (c_won_sign # asc ''12'') \<and>
   is_substr (c_won_sign # asc ''12'') (c_won_sign # asc ''123'') \<and>
   \<not> ascii_digit 44 \<and> \<not> ascii_digit c_won_sign \<and>
   (\<exists>c \<in> set (amounts (extract_with_rules ascii_digit (c_won_sign # asc ''123''))).
      is_substr (c_won_sign # asc ''12'') c)"
proof -
  have d: "\<not> ascii_digit c_won"
    by (simp add: ascii_digit_def c_won_def)
  have f: "full_match ascii_digit number_won (asc ''150,000'' @ [c_won])"
    by (simp add: pattern_defs asc_def)
  have i: "is_substr (asc ''150,000'' @ [c_won]) (asc ''1,150,000'' @ [c_won])"
    by (simp add: asc_def c_won_def)
  have m: "won_sign_number \<in> set amount_patterns"
    by (simp add: amount_patterns_def)
  have f2: "full_match ascii_digit won_sign_number (c_won_sign # asc ''12'')"
    by (simp add: pattern_defs asc_def)
  have i2: "is_substr (c_won_sign # asc ''12'') (c_won_sign # asc ''123'')"
    by (simp add: asc_def)
  have t: "\<not> ascii_digit 44" "\<not> ascii_digit c_won_sign"
    "\<forall>c. ascii_digit c \<longrightarrow> \<not> is_space c"
    by (simp_all add: ascii_digit_def is_space_def c_won_sign_def)
  from scenario_candidates_and_amount_coverage [OF d f i]
  have "\<exists>c \<in> set (amounts (extract_with_rules ascii_digit (asc ''1,150,000'' @ [c_won]))).
          is_substr (asc ''150,000'' @ [c_won]) c"
    and "\<exists>c \<in> set (amounts (extract_with_rules ascii_digit (c_won_sign # asc ''123''))).
          is_substr (c_won_sign # asc ''12'') c"
    using m f2 i2 t by blast+
  with d f i m f2 i2 t(1,2) show ?thesis by blast
qed

text \<open>
  Claim C3, as stated, fails twice. The phone candidates of the scenario text are
  \<open>"1577"\<close>, \<open>"1000"\<close> and the labelled match; the exact string \<open>"1577-1000"\<close> is not
  among them. And the text \<open>"1,150,000"\<close> won contains the literal \<open>"150,000"\<close> won, but
  its only amount candidate is the longer match.
\<close>

theorem bare_phone_number_not_a_candidate:
  "phones (extract_with_rules ascii_digit scenario_text) =
     [ asc ''1577'', asc ''1000'', [47928, 51032] @ asc '': 1577-1000'' ] \<and>
   asc ''1577-1000'' \<notin> set (phones (extract_with_rules ascii_digit scenario_text)) \<and>
   is_substr (asc ''150,000'' @ [c_won]) (asc ''1,150,000'' @ [c_won]) \<and>
   amounts (extract_with_rules ascii_digit (asc ''1,150,000'' @ [c_won])) =
     [ asc ''1,150,000'' @ [c_won] ]"
proof -
  have "amounts (extract_with_rules ascii_digit (asc ''1,150,000'' @ [c_won])) =
     [ asc ''1,150,000'' @ [c_won] ]"
    by (simp add: extract_with_rules_def all_group0_def add_unique_def amount_patterns_def
      pattern_defs asc_def)
  moreover have "is_substr (asc ''150,000'' @ [c_won]) (asc ''1,150,000'' @ [c_won])"
    by (simp add: asc_def c_won_def)
  moreover have "asc ''1577-1000'' \<notin> set (phones (extract_with_rules ascii_digit scenario_text))"
    by (simp add: scenario_phones asc_def)
  ultimately show ?thesis by (simp add: scenario_phones)
qed

section \<open>Malformed generative output\<close>

lemma brace_search: "re_search ascii_digit brace_pattern (asc ''{a: 1}'') = Some (asc ''{a: 1}'')"
  by (simp add: brace_pattern_def pattern_defs asc_def)

text \<open>
  What the helper gets right: a response that is no JSON and has no pair of braces
  comes back as the diagnostic dict with the raw response.
\<close>

lemma sentinel_without_braces:
  assumes "json_loads response = Inl JSONDecodeError"
    and "re_search ascii_digit brace_pattern response = None"
  shows "call_llm_json json_loads (Inr response) = Inr (parse_failure response)"
  using assms by (simp add: call_llm_json_def andthen_Inr)

text \<open>
  Claim C9 fails on the code. The response \<open>{a: 1}\<close> is no JSON (the key is not
  quoted); the search finds the braces, the match is the whole response, and the
  second, unguarded \<open>json.loads\<close> raises the same \<open>JSONDecodeError\<close> out of the helper.
\<close>

theorem unparsable_braces_raise:
  assumes "json_loads (asc ''{a: 1}'') = Inl JSONDecodeError"
  shows "call_llm_json json_loads (Inr (asc ''{a: 1}'')) = Inl JSONDecodeError"
  using assms by (simp add: call_llm_json_def andthen_Inr brace_search)

text \<open>An instance: a parser that rejects this response (here, one that rejects everything).\<close>

theorem unparsable_braces_raise_witness:
  "(\<lambda>s. Inl JSONDecodeError) (asc ''{a: 1}'') = (Inl JSONDecodeError :: exn + pyval) \<and>
   call_llm_json (\<lambda>s. Inl JSONDecodeError) (Inr (asc ''{a: 1}'')) = Inl JSONDecodeError"
  using unparsable_braces_raise [of "\<lambda>s. Inl JSONDecodeError"] by simp

section \<open>The history file\<close>

text \<open>
  Claim C10 fails on the code. New entries go to the front of \<open>analysis_history\<close>
  (and \<open>GET /history\<close> lists the front as the recent ones), but the file gets the last
  50 elements of the list. Once the list holds 50 entries, an added entry is first in
  the listing and is not written: the file holds the last 50 of the old list.
\<close>

theorem newest_entry_not_persisted:
  assumes "50 \<le> length (analysis_history st)"
  shows "history_file (add_to_history fresh_id now Written result filename st) =
           Some (last_50 (analysis_history st)) \<and>
         get_history 1 (add_to_history fresh_id now Written result filename st) =
           [history_entry fresh_id now result filename]"
proof -
  let ?h = "analysis_history st"
  have "length ?h - 49 = Suc (length ?h - 50)" using assms by simp
  then have "last_50 (history_entry fresh_id now result filename # ?h) = last_50 ?h"
    by (simp add: last_50_def)
  then show ?thesis
    by (simp add: add_to_history_def save_history_def get_history_def)
qed

text \<open>An instance: fifty entries in the list, and a fifty-first is added.\<close>

theorem newest_entry_not_persisted_witness:
  "50 \<le> length (analysis_history
             \<lparr> analysis_history = replicate 50 (history_entry (asc ''id-0'') (asc ''t0'') [] None),
               history_file = None \<rparr>) \<and>
   history_file (add_to_history (asc ''id-51'') (asc ''t51'') Written [] None
             \<lparr> analysis_history = replicate 50 (history_entry (asc ''id-0'') (asc ''t0'') [] None),
               history_file = None \<rparr>) =
     Some (replicate 50 (history_entry (asc ''id-0'') (asc ''t0'') [] None)) \<and>
   get_history 1 (add_to_history (asc ''id-51'') (asc ''t51'') Written [] None
             \<lparr> analysis_history = replicate 50 (history_entry (asc ''id-0'') (asc ''t0'') [] None),
               history_file = None \<rparr>) =
     [history_entry (asc ''id-51'') (asc ''t51'') [] None]"
proof -
  let ?st = "\<lparr> analysis_history = replicate 50 (history_entry (asc ''id-0'') (asc ''t0'') [] None),
               history_file = None \<rparr>"
  have l: "50 \<le> length (analysis_history ?st)"
    by simp
  from newest_entry_not_persisted [OF l, of "asc ''id-51''" "asc ''t51''" "[]" None]
  show ?thesis by (simp add: last_50_def)
qed

end
